theory Spec2Isabelle
  imports Complex_Main "HOL-Library.Char_ord" "HOL-Library.List_Lexorder"
begin

section \<open>Python strings\<close>

text \<open>
  Strings are lists of characters, and a character is a code point below 256. On these,
  \<open>lower\<close> and \<open>strip\<close> are Python's: the capitals are A to Z and U+00C0 to U+00DE without
  the multiplication sign, and the whitespace is 9 to 13, 28 to 32, U+0085 and U+00A0.
  \<open>upper\<close> is Python's on every character whose capital is one character below 256; the
  three others (U+00B5, U+00DF, U+00FF) are left as they are.
\<close>

definition upper_char :: "char \<Rightarrow> char" where
  "upper_char c =
     (let n = (of_char c :: nat)
      in if (97 \<le> n \<and> n \<le> 122) \<or> (224 \<le> n \<and> n \<le> 254 \<and> n \<noteq> 247) then char_of (n - 32) else c)"

definition lower_char :: "char \<Rightarrow> char" where
  "lower_char c =
     (let n = (of_char c :: nat)
      in if (65 \<le> n \<and> n \<le> 90) \<or> (192 \<le> n \<and> n \<le> 222 \<and> n \<noteq> 215) then char_of (n + 32) else c)"

definition upper :: "string \<Rightarrow> string" where
  "upper s = map upper_char s"

definition lower :: "string \<Rightarrow> string" where
  "lower s = map lower_char s"

definition is_space :: "char \<Rightarrow> bool" where
  "is_space c =
     (let n = (of_char c :: nat)
      in (9 \<le> n \<and> n \<le> 13) \<or> (28 \<le> n \<and> n \<le> 32) \<or> n = 133 \<or> n = 160)"

definition strip :: "string \<Rightarrow> string" where
  "strip s = rev (dropWhile is_space (rev (dropWhile is_space s)))"

fun starts_with :: "string \<Rightarrow> string \<Rightarrow> bool" where
  "starts_with s [] = True"
| "starts_with [] (p # ps) = False"
| "starts_with (c # cs) (p # ps) = (c = p \<and> starts_with cs ps)"

definition ends_with :: "string \<Rightarrow> string \<Rightarrow> bool" where
  "ends_with s p = starts_with (rev s) (rev p)"

text \<open>\<open>contains sub s\<close> is Python's \<open>sub in s\<close>.\<close>

fun contains :: "string \<Rightarrow> string \<Rightarrow> bool" where
  "contains sub [] = (sub = [])"
| "contains sub (c # cs) = (starts_with (c # cs) sub \<or> contains sub cs)"

text \<open>
  \<open>replace old new s\<close> is \<open>s.replace(old, new)\<close>: the occurrences of \<open>old\<close> are replaced
  from left to right without overlap; an empty \<open>old\<close> matches between any two characters.
\<close>

function replace :: "string \<Rightarrow> string \<Rightarrow> string \<Rightarrow> string" where
  "replace old new [] = (if old = [] then new else [])"
| "replace old new (c # cs) =
     (if old = [] then new @ c # replace old new cs
      else if starts_with (c # cs) old then new @ replace old new (drop (length old) (c # cs))
      else c # replace old new cs)"
  by pat_completeness auto
termination
  by (relation "measure (\<lambda>(old, new, s). length s)") auto

text \<open>\<open>last_segment key\<close> is \<open>key.rsplit("/", 1)[-1]\<close>: the text after the last slash.\<close>

definition last_segment :: "string \<Rightarrow> string" where
  "last_segment key = rev (takeWhile (\<lambda>c. c \<noteq> CHR ''/'') (rev key))"

definition is_digit :: "char \<Rightarrow> bool" where
  "is_digit c = (let n = (of_char c :: nat) in 48 \<le> n \<and> n \<le> 57)"

text \<open>\<open>py_int s\<close> is \<open>int(s)\<close> on a string of decimal digits; \<open>None\<close> stands for ValueError.\<close>

definition py_int :: "string \<Rightarrow> int option" where
  "py_int s =
     (if s \<noteq> [] \<and> list_all is_digit s
      then Some (foldl (\<lambda>n c. 10 * n + (int (of_char c) - 48)) 0 s)
      else None)"

text \<open>
  \<open>py_repr s\<close> is \<open>repr(s)\<close>: the string between single quotes, or between double quotes
  when it holds a single quote and no double quote, with the backslash, the quote, tab,
  newline and carriage return escaped and every other character that is not printable
  written as \<open>\xNN\<close>.
\<close>

definition hex_digit :: "nat \<Rightarrow> char" where
  "hex_digit n = ''0123456789abcdef'' ! (n mod 16)"

definition repr_char :: "char \<Rightarrow> char \<Rightarrow> string" where
  "repr_char q c =
     (let n = (of_char c :: nat)
      in if n = 92 then [c, c]
         else if c = q then [CHR 0x5C, c]
         else if n = 9 then [CHR 0x5C, CHR ''t'']
         else if n = 10 then [CHR 0x5C, CHR ''n'']
         else if n = 13 then [CHR 0x5C, CHR ''r'']
         else if n < 32 \<or> (127 \<le> n \<and> n \<le> 160) \<or> n = 173
         then [CHR 0x5C, CHR ''x'', hex_digit (n div 16), hex_digit n]
         else [c])"

definition py_repr :: "string \<Rightarrow> string" where
  "py_repr s =
     (let q = (if CHR 0x27 \<in> set s \<and> CHR 0x22 \<notin> set s then CHR 0x22 else CHR 0x27)
      in q # concat (map (repr_char q) s) @ [q])"

section \<open>Exceptions\<close>

text \<open>
  The exceptions the two modules raise or let pass. \<open>SystemExit\<close> derives from
  \<open>BaseException\<close> only; the others derive from \<open>Exception\<close>, which is what
  \<open>except Exception\<close> catches. \<open>OperationalError\<close> and \<open>DatabaseError\<close> are those of
  \<open>sqlite3\<close>. \<open>exc_str e\<close> is \<open>str(e)\<close>: the message, and for a \<open>KeyError\<close> its \<open>repr\<close>.
\<close>

datatype py_exc =
    SystemExit string
  | ValueError string
  | RuntimeError string
  | KeyError string
  | AttributeError string
  | IndexError string
  | OperationalError string
  | DatabaseError string

fun is_Exception :: "py_exc \<Rightarrow> bool" where
  "is_Exception (SystemExit m) = False"
| "is_Exception (ValueError m) = True"
| "is_Exception (RuntimeError m) = True"
| "is_Exception (KeyError m) = True"
| "is_Exception (AttributeError m) = True"
| "is_Exception (IndexError m) = True"
| "is_Exception (OperationalError m) = True"
| "is_Exception (DatabaseError m) = True"

fun exc_str :: "py_exc \<Rightarrow> string" where
  "exc_str (SystemExit m) = m"
| "exc_str (ValueError m) = m"
| "exc_str (RuntimeError m) = m"
| "exc_str (KeyError m) = py_repr m"
| "exc_str (AttributeError m) = m"
| "exc_str (IndexError m) = m"
| "exc_str (OperationalError m) = m"
| "exc_str (DatabaseError m) = m"

section \<open>Filename patterns\<close>

text \<open>
  The regular expressions of the module use literals, character classes, alternation,
  an optional item, capturing groups and the end anchor. \<open>rx_run\<close> is the backtracking
  matcher: it returns every way the pattern can match a prefix of the input, in the
  order in which backtracking tries them, each with the groups captured so far and the
  rest of the input. \<open>re_match\<close> is \<open>re.match\<close>: the first of them.
\<close>

datatype rx =
    Eps
  | Lit "char list"
  | Seq rx rx
  | Alt rx rx
  | Opt rx
  | Grp rx
  | Eos

fun rx_run :: "rx \<Rightarrow> string list \<times> string \<Rightarrow> (string list \<times> string) list" where
  "rx_run Eps st = [st]"
| "rx_run (Lit cs) (gs, s) =
     (case s of [] \<Rightarrow> [] | c # r \<Rightarrow> if c \<in> set cs then [(gs, r)] else [])"
| "rx_run (Seq a b) st = concat (map (rx_run b) (rx_run a st))"
| "rx_run (Alt a b) st = rx_run a st @ rx_run b st"
| "rx_run (Opt a) st = rx_run a st @ [st]"
| "rx_run (Grp a) (gs, s) =
     map (\<lambda>(gs', r). (gs' @ [take (length s - length r) s], r)) (rx_run a (gs, s))"
| "rx_run Eos (gs, s) = (if s = [] \<or> s = [CHR 0x0A] then [(gs, s)] else [])"

definition re_match :: "rx \<Rightarrow> string \<Rightarrow> string list option" where
  "re_match r s = (case rx_run r ([], s) of [] \<Rightarrow> None | (gs, rest) # more \<Rightarrow> Some gs)"

text \<open>Under \<open>re.IGNORECASE\<close> a literal letter matches both of its cases.\<close>

definition ci :: "char \<Rightarrow> rx" where
  "ci c = Lit [upper_char c, lower_char c]"

definition ci_str :: "string \<Rightarrow> rx" where
  "ci_str s = foldr (\<lambda>c r. Seq (ci c) r) s Eps"

definition digit :: rx where
  "digit = Lit ''0123456789''"

text \<open>The year token \<open>(20[2-7]\d|208[0-4])\<close>, shared by both patterns.\<close>

definition year_rx :: rx where
  "year_rx = Grp (Alt (Seq (ci_str ''20'') (Seq (Lit ''234567'') digit))
                      (Seq (ci_str ''208'') (Lit ''01234'')))"

text \<open>
  \<open>^(RCP(?:8\.5|4\.5|2\.6))_([EFT](?:[12]?\d|2[0-8]))_(20[2-7]\d|208[0-4])\.idf$\<close>
\<close>

definition IDF_NAME_RE :: rx where
  "IDF_NAME_RE =
     Seq (Grp (Seq (ci_str ''RCP'') (Alt (ci_str ''8.5'') (Alt (ci_str ''4.5'') (ci_str ''2.6'')))))
    (Seq (ci_str ''_'')
    (Seq (Grp (Seq (Lit ''EFTeft'')
                   (Alt (Seq (Opt (Lit ''12'')) digit) (Seq (ci_str ''2'') (Lit ''012345678'')))))
    (Seq (ci_str ''_'')
    (Seq year_rx
    (Seq (ci_str ''.idf'') Eos)))))"

text \<open>\<open>^Rotterdam_(RCP(?:85|45|26))_(20[2-7]\d|208[0-4])\.epw$\<close>\<close>

definition EPW_NAME_RE :: rx where
  "EPW_NAME_RE =
     Seq (ci_str ''Rotterdam_'')
    (Seq (Grp (Seq (ci_str ''RCP'') (Alt (ci_str ''85'') (Alt (ci_str ''45'') (ci_str ''26'')))))
    (Seq (ci_str ''_'')
    (Seq year_rx
    (Seq (ci_str ''.epw'') Eos))))"

definition map_rcp_dot_to_nodot :: "string \<Rightarrow> string" where
  "map_rcp_dot_to_nodot rcp =
     (let rcp = replace '' '' '''' (upper rcp)
      in replace ''2.6'' ''26'' (replace ''4.5'' ''45'' (replace ''8.5'' ''85'' rcp)))"

definition parse_idf_filename :: "string \<Rightarrow> py_exc + (string \<times> string \<times> int)" where
  "parse_idf_filename name =
     (case re_match IDF_NAME_RE name of
        None \<Rightarrow> Inl (ValueError (''Unrecognized IDF filename: '' @ name))
      | Some [rcp_dot, aging, year_str] \<Rightarrow>
          (case py_int year_str of
             None \<Rightarrow> Inl (ValueError (''invalid literal for int(): '' @ year_str))
           | Some year \<Rightarrow> Inr (upper rcp_dot, upper aging, year))
      | Some gs \<Rightarrow> Inl (ValueError ''wrong number of values to unpack''))"

section \<open>Metric extraction\<close>

text \<open>
  Metric values are Python floats. The program only parses, stores and passes them on and
  never computes with them, so their type is a parameter \<open>'v\<close>, and \<open>float()\<close> is a parameter
  \<open>pf\<close> that returns \<open>None\<close> where \<open>float()\<close> raises.
\<close>

definition safe_float :: "(string \<Rightarrow> 'v option) \<Rightarrow> string \<Rightarrow> 'v option" where
  "safe_float pf s = pf (strip (replace '','' '''' s))"

text \<open>
  A structured result file is a file that is no database, a database without the
  \<open>TabularDataWithStrings\<close> view, or a database with the view: then the rows of
  (TableName, RowName, ColumnName, Value), in the order a query returns them. On the
  first two the first \<open>execute\<close> raises; \<open>fetch_from_sql\<close> closes the connection and lets
  the exception pass.
\<close>

type_synonym sql_row = "string \<times> string \<times> string \<times> string"

datatype sql_db = NotADatabase | NoTabularView | TabularView "sql_row list"

definition sql_select :: "string \<Rightarrow> sql_row list \<Rightarrow> sql_row option" where
  "sql_select column_prefix db =
     find (\<lambda>(table_name, row_name, column_name, v).
             starts_with (lower table_name) ''site and source energy''
           \<and> lower row_name = ''total site energy''
           \<and> starts_with (lower column_name) column_prefix) db"

definition fetch_from_sql ::
  "(string \<Rightarrow> 'v option) \<Rightarrow> sql_db option \<Rightarrow> py_exc + ('v option \<times> 'v option)" where
  "fetch_from_sql pf sql_file =
     (case sql_file of
        None \<Rightarrow> Inr (None, None)
      | Some NotADatabase \<Rightarrow> Inl (DatabaseError ''file is not a database'')
      | Some NoTabularView \<Rightarrow> Inl (OperationalError ''no such table: TabularDataWithStrings'')
      | Some (TabularView db) \<Rightarrow>
          (let total_site = (case sql_select ''total energy'' db of
                               Some (tn, rn, cn, v) \<Rightarrow> safe_float pf v | None \<Rightarrow> None);
               per_area = (case sql_select ''energy per total building area'' db of
                             Some (tn, rn, cn, v) \<Rightarrow> safe_float pf v | None \<Rightarrow> None)
           in Inr (total_site, per_area)))"

text \<open>
  A text report is the list of rows that \<open>csv.reader\<close> yields for its delimiter, each row a
  list of cells. Indexing a list of rows is checked: \<open>row_at\<close> is \<open>rows[j]\<close> and raises
  IndexError out of range.
\<close>

type_synonym row = "string list"

definition row_at :: "'a list \<Rightarrow> nat \<Rightarrow> py_exc + 'a" where
  "row_at rows j = (if j < length rows then Inr (rows ! j) else Inl (IndexError ''list index out of range''))"

definition any_cell_contains :: "string \<Rightarrow> row \<Rightarrow> bool" where
  "any_cell_contains phrase r = list_ex (\<lambda>c. contains phrase (lower c)) r"

definition is_header_row :: "row \<Rightarrow> bool" where
  "is_header_row r =
     (let hdr_lower = map lower r
      in list_ex (contains ''total energy'') hdr_lower
       \<and> list_ex (contains ''energy per total building area'') hdr_lower)"

text \<open>The loop over \<open>k\<close> that looks for the header row and breaks at the first one.\<close>

fun find_header :: "row list \<Rightarrow> nat list \<Rightarrow> py_exc + nat option" where
  "find_header rows [] = Inr None"
| "find_header rows (k # ks) =
     (case row_at rows k of
        Inl e \<Rightarrow> Inl e
      | Inr r \<Rightarrow> if is_header_row r then Inr (Some k) else find_header rows ks)"

text \<open>\<open>next(i2 for i2, c in enumerate(header) if P c)\<close>; \<open>None\<close> stands for StopIteration.\<close>

fun first_index :: "('a \<Rightarrow> bool) \<Rightarrow> 'a list \<Rightarrow> nat option" where
  "first_index P [] = None"
| "first_index P (x # xs) = (if P x then Some 0 else map_option Suc (first_index P xs))"

text \<open>
  The loop over the rows below the header: \<open>None\<close> when it ends without returning (a blank
  row, or no row left), \<open>Some\<close> the returned pair otherwise.
\<close>

fun scan_data :: "(string \<Rightarrow> 'v option) \<Rightarrow> nat \<Rightarrow> nat \<Rightarrow> row list \<Rightarrow> ('v option \<times> 'v option) option" where
  "scan_data pf col_total col_per_area [] = None"
| "scan_data pf col_total col_per_area (r2 # rest) =
     (case r2 of
        [] \<Rightarrow> None
      | c0 # cs \<Rightarrow>
          if list_all (\<lambda>c. c = []) r2 then None
          else if lower (strip c0) = ''total site energy''
          then Some (if col_total < length r2 then safe_float pf (r2 ! col_total) else None,
                     if col_per_area < length r2 then safe_float pf (r2 ! col_per_area) else None)
          else scan_data pf col_total col_per_area rest)"

text \<open>The loop over \<open>j\<close>, given the indices it ranges over.\<close>

fun try_subsections ::
  "(string \<Rightarrow> 'v option) \<Rightarrow> row list \<Rightarrow> nat list \<Rightarrow> py_exc + ('v option \<times> 'v option) option" where
  "try_subsections pf rows [] = Inr None"
| "try_subsections pf rows (j # js) =
     (case row_at rows j of
        Inl e \<Rightarrow> Inl e
      | Inr rj \<Rightarrow>
          if any_cell_contains ''site and source energy'' rj then
            (case find_header rows [j + 1 ..< min (j + 15) (length rows)] of
               Inl e \<Rightarrow> Inl e
             | Inr None \<Rightarrow> try_subsections pf rows js
             | Inr (Some header_idx) \<Rightarrow>
                 (case row_at rows header_idx of
                    Inl e \<Rightarrow> Inl e
                  | Inr hr \<Rightarrow>
                      (let header = map lower hr
                       in case first_index (contains ''total energy'') header of
                            None \<Rightarrow> try_subsections pf rows js
                          | Some col_total \<Rightarrow>
                              (case first_index (contains ''energy per total building area'') header of
                                 None \<Rightarrow> try_subsections pf rows js
                               | Some col_per_area \<Rightarrow>
                                   (case scan_data pf col_total col_per_area (drop (header_idx + 1) rows) of
                                      Some res \<Rightarrow> Inr (Some res)
                                    | None \<Rightarrow> try_subsections pf rows js)))))
          else try_subsections pf rows js)"

text \<open>The loop over \<open>i, r\<close>: \<open>i\<close> is the index of the first row of the rest.\<close>

fun try_sections ::
  "(string \<Rightarrow> 'v option) \<Rightarrow> row list \<Rightarrow> nat \<Rightarrow> row list \<Rightarrow> py_exc + ('v option \<times> 'v option) option" where
  "try_sections pf rows i [] = Inr None"
| "try_sections pf rows i (r # rest) =
     (if any_cell_contains ''annual building utility performance summary'' r then
        (case try_subsections pf rows [i + 1 ..< min (i + 40) (length rows)] of
           Inl e \<Rightarrow> Inl e
         | Inr (Some res) \<Rightarrow> Inr (Some res)
         | Inr None \<Rightarrow> try_sections pf rows (i + 1) rest)
      else try_sections pf rows (i + 1) rest)"

definition fetch_from_tabular_text ::
  "(string \<Rightarrow> 'v option) \<Rightarrow> row list option \<Rightarrow> py_exc + ('v option \<times> 'v option)" where
  "fetch_from_tabular_text pf file =
     (case file of
        None \<Rightarrow> Inr (None, None)
      | Some raw \<Rightarrow>
          (let rows = map (map strip) raw
           in case try_sections pf rows 0 rows of
                Inl e \<Rightarrow> Inl e
              | Inr (Some res) \<Rightarrow> Inr res
              | Inr None \<Rightarrow> Inr (None, None)))"

text \<open>
  An output directory holds each of the three candidate files or not. \<open>fetch_metrics_any\<close>
  returns, next to its result, the list of the strategies it has tried, in order: a
  strategy is tried from the moment its file is looked for.
\<close>

record outdir =
  eplusout_sql :: "sql_db option"
  eplustbl_tab :: "row list option"
  eplustbl_csv :: "row list option"

definition fetch_metrics_any ::
  "(string \<Rightarrow> 'v option) \<Rightarrow> outdir \<Rightarrow> (py_exc + ('v option \<times> 'v option \<times> string)) \<times> string list" where
  "fetch_metrics_any pf od =
     (let tried = [''sql'']
      in case (if eplusout_sql od \<noteq> None then fetch_from_sql pf (eplusout_sql od) else Inr (None, None)) of
           Inl e \<Rightarrow> (Inl e, tried)
         | Inr (t, p) \<Rightarrow>
             if eplusout_sql od \<noteq> None \<and> (t \<noteq> None \<or> p \<noteq> None) then (Inr (t, p, ''sql''), tried)
             else
               (case fetch_from_tabular_text pf (eplustbl_tab od) of
                  Inl e \<Rightarrow> (Inl e, tried @ [''tab''])
                | Inr (t, p) \<Rightarrow>
                    if t \<noteq> None \<or> p \<noteq> None then (Inr (t, p, ''tab''), tried @ [''tab''])
                    else
                      (case fetch_from_tabular_text pf (eplustbl_csv od) of
                         Inl e \<Rightarrow> (Inl e, tried @ [''tab'', ''csv''])
                       | Inr (t, p) \<Rightarrow>
                           if t \<noteq> None \<or> p \<noteq> None then (Inr (t, p, ''csv''), tried @ [''tab'', ''csv''])
                           else (Inr (None, None, ''none''), tried @ [''tab'', ''csv'']))))"

section \<open>Result matrices\<close>

text \<open>
  A result workbook has one sheet. Rows 1 and 2 are the header rows: their cells hold text
  or are empty. The cells of the rows from 3 on hold numbers: the year in column 1, a
  metric value elsewhere. A cell is addressed by (row, column), both counted from 1.
  \<open>max_column\<close> is the largest column that has a cell, and \<open>widths\<close> the column widths set.
  The persisted document of a key is the sheet itself: saving and loading are the identity.
\<close>

datatype 'v num = PyInt int | PyFloat 'v

record 'v worksheet =
  title :: string
  header_cells :: "nat \<times> nat \<Rightarrow> string option"
  number_cells :: "nat \<times> nat \<Rightarrow> 'v num option"
  max_column :: nat
  widths :: "nat \<Rightarrow> nat option"

type_synonym 'v bucket = "string \<Rightarrow> 'v worksheet option"

definition YEARS_START :: int where
  "YEARS_START = 2025"

definition YEARS_END :: int where
  "YEARS_END = 2084"

definition TOTAL_XLSX_KEY :: string where
  "TOTAL_XLSX_KEY = ''results_total_site_energy.xlsx''"

definition PERAREA_XLSX_KEY :: string where
  "PERAREA_XLSX_KEY = ''results_site_energy_per_area.xlsx''"

text \<open>\<open>ws.cell(row, column, value)\<close> for a header cell and for a number cell.\<close>

definition set_header_cell :: "'v worksheet \<Rightarrow> nat \<Rightarrow> nat \<Rightarrow> string \<Rightarrow> 'v worksheet" where
  "set_header_cell ws r c v =
     ws\<lparr>header_cells := (header_cells ws)((r, c) \<mapsto> v), max_column := max (max_column ws) c\<rparr>"

definition set_number_cell :: "'v worksheet \<Rightarrow> nat \<Rightarrow> nat \<Rightarrow> 'v num \<Rightarrow> 'v worksheet" where
  "set_number_cell ws r c v =
     ws\<lparr>number_cells := (number_cells ws)((r, c) \<mapsto> v), max_column := max (max_column ws) c\<rparr>"

definition init_workbook :: "'v worksheet" where
  "init_workbook =
     fold (\<lambda>(i, year) ws. set_number_cell ws i 1 (PyInt year))
          (zip [3 ..< 3 + nat (YEARS_END + 1 - YEARS_START)] [YEARS_START .. YEARS_END])
          (set_header_cell
             (set_header_cell
                \<lparr>title = ''Results'', header_cells = (\<lambda>rc. None), number_cells = (\<lambda>rc. None),
                 max_column = 1, widths = (\<lambda>c. None)\<rparr>
                1 1 ''Year'')
             2 1 '''')"

definition download_workbook_or_create :: "'v bucket \<Rightarrow> string \<Rightarrow> 'v worksheet" where
  "download_workbook_or_create s key = (case s key of Some wb \<Rightarrow> wb | None \<Rightarrow> init_workbook)"

definition upload_workbook :: "'v bucket \<Rightarrow> string \<Rightarrow> 'v worksheet \<Rightarrow> 'v bucket" where
  "upload_workbook s key wb = s(key \<mapsto> wb)"

text \<open>\<open>(ws.cell(row=r, column=col).value or "").strip()\<close>\<close>

definition header_text :: "'v worksheet \<Rightarrow> nat \<Rightarrow> nat \<Rightarrow> string" where
  "header_text ws r col = strip (case header_cells ws (r, col) of None \<Rightarrow> '''' | Some v \<Rightarrow> v)"

definition col_for_pair :: "'v worksheet \<Rightarrow> string \<Rightarrow> string \<Rightarrow> nat \<times> 'v worksheet" where
  "col_for_pair ws climate aging =
     (let max_col = (if max_column ws = 0 then 1 else max_column ws)
      in case find (\<lambda>col. header_text ws 1 col = climate \<and> header_text ws 2 col = aging)
                   [2 ..< max_col + 1] of
           Some col \<Rightarrow> (col, ws)
         | None \<Rightarrow>
             (let col = (if max_col \<ge> 2 then max_col + 1 else 2);
                  ws = set_header_cell ws 1 col climate;
                  ws = set_header_cell ws 2 col aging;
                  ws = ws\<lparr>widths := (widths ws)(col \<mapsto> 16)\<rparr>
              in (col, ws)))"

function str_nat :: "nat \<Rightarrow> string" where
  "str_nat n = (if n < 10 then [char_of (48 + n)] else str_nat (n div 10) @ [char_of (48 + n mod 10)])"
  by pat_completeness auto
termination
  by (relation "measure (\<lambda>n. n)") auto

definition str_int :: "int \<Rightarrow> string" where
  "str_int i = (if i < 0 then CHR ''-'' # str_nat (nat (- i)) else str_nat (nat i))"

definition year_error :: "int \<Rightarrow> py_exc" where
  "year_error year =
     ValueError (''Year '' @ str_int year @ '' outside ['' @ str_int YEARS_START @ '', ''
                 @ str_int YEARS_END @ '']'')"

definition row_for_year :: "int \<Rightarrow> py_exc + nat" where
  "row_for_year year =
     (if year < YEARS_START \<or> year > YEARS_END then Inl (year_error year)
      else Inr (nat (3 + (year - YEARS_START))))"

text \<open>
  \<open>write_result_to_s3\<close> returns how it ended and the bucket it leaves: the only write to
  the bucket is the upload at its end.
\<close>

definition write_result_to_s3 ::
  "'v bucket \<Rightarrow> string \<Rightarrow> string \<Rightarrow> string \<Rightarrow> int \<Rightarrow> 'v option \<Rightarrow> (py_exc + unit) \<times> 'v bucket" where
  "write_result_to_s3 s key climate aging year val =
     (case val of
        None \<Rightarrow> (Inr (), s)
      | Some v \<Rightarrow>
          (let wb = download_workbook_or_create s key;
               (col, ws) = col_for_pair wb climate aging
           in case row_for_year year of
                Inl e \<Rightarrow> (Inl e, s)
              | Inr row \<Rightarrow>
                  (let ws = set_number_cell ws row col (PyFloat v)
                   in (Inr (), upload_workbook s key ws))))"

section \<open>The batch\<close>

text \<open>
  The environment of a batch: the settings read from the process environment, the keys of
  the objects in the bucket in listing order, and the simulation engine, which for a
  staged pair of files either fails or leaves an output directory. The scratch directory
  of an artifact, its downloads and its cleanup leave no trace in this state.
\<close>

record settings =
  S3_BUCKET :: string
  S3_IDF_PREFIX :: string
  S3_EPW_PREFIX :: string

record summary =
  bucket :: string
  idf_prefix :: string
  epw_prefix :: string
  results_total_key :: string
  results_per_area_key :: string
  processed :: "string list"
  count_success :: nat
  count_failed :: nat
  count_total :: nat

definition list_objects_all :: "string list \<Rightarrow> string \<Rightarrow> string list" where
  "list_objects_all object_keys prefix = filter (\<lambda>key. starts_with key prefix) object_keys"

definition rstrip_slash :: "string \<Rightarrow> string" where
  "rstrip_slash s = rev (dropWhile (\<lambda>c. c = CHR ''/'') (rev s))"

text \<open>
  The weather index is a dictionary in insertion order; a key listed twice keeps its
  place and takes the later value.
\<close>

type_synonym epw_index = "((string \<times> int) \<times> string) list"

fun index_update :: "'k \<Rightarrow> 'a \<Rightarrow> ('k \<times> 'a) list \<Rightarrow> ('k \<times> 'a) list" where
  "index_update k v [] = [(k, v)]"
| "index_update k v ((k', v') # idx) = (if k' = k then (k, v) # idx else (k', v') # index_update k v idx)"

definition index_epws_s3 :: "string list \<Rightarrow> string \<Rightarrow> epw_index" where
  "index_epws_s3 object_keys prefix =
     fold (\<lambda>key idx.
             case re_match EPW_NAME_RE (last_segment key) of
               Some [rcp_nodot, year_str] \<Rightarrow>
                 (case py_int year_str of
                    Some year \<Rightarrow> index_update (upper rcp_nodot, year) key idx
                  | None \<Rightarrow> idx)
             | _ \<Rightarrow> idx)
          (list_objects_all object_keys prefix) []"

text \<open>
  The body of the loop for one artifact, up to its \<open>except\<close>: it ends normally, skips the
  artifact for want of a weather file, or raises.
\<close>

datatype body_result = Done | Skipped | Raised py_exc

definition process_artifact ::
  "(string \<Rightarrow> 'v option) \<Rightarrow> (string \<Rightarrow> string \<Rightarrow> py_exc + outdir) \<Rightarrow> epw_index \<Rightarrow> 'v bucket \<Rightarrow> string
   \<Rightarrow> body_result \<times> 'v bucket" where
  "process_artifact pf engine epw_idx s idf_key =
     (let name = last_segment idf_key
      in case parse_idf_filename name of
           Inl e \<Rightarrow> (Raised e, s)
         | Inr (rcp_dot, aging, year) \<Rightarrow>
             (let rcp_nodot = map_rcp_dot_to_nodot rcp_dot
              in case map_of epw_idx (rcp_nodot, year) of
                   None \<Rightarrow> (Skipped, s)
                 | Some epw_key \<Rightarrow>
                     if epw_key = [] then (Skipped, s)
                     else
                       (case engine idf_key epw_key of
                          Inl e \<Rightarrow> (Raised e, s)
                        | Inr od \<Rightarrow>
                            (case fst (fetch_metrics_any pf od) of
                               Inl e \<Rightarrow> (Raised e, s)
                             | Inr (total_site, per_area, src) \<Rightarrow>
                                 if total_site = None \<and> per_area = None
                                 then (Raised (RuntimeError ''Failed to extract metrics; ensure ABUPS tables are produced.''), s)
                                 else
                                   (case write_result_to_s3 s TOTAL_XLSX_KEY rcp_nodot aging year total_site of
                                      (Inl e, s1) \<Rightarrow> (Raised e, s1)
                                    | (Inr u, s1) \<Rightarrow>
                                        (case write_result_to_s3 s1 PERAREA_XLSX_KEY rcp_nodot aging year per_area of
                                           (Inl e, s2) \<Rightarrow> (Raised e, s2)
                                         | (Inr u, s2) \<Rightarrow> (Done, s2)))))))"

record 'v tally =
  store :: "'v bucket"
  successes :: nat
  failures :: nat
  processed_keys :: "string list"

text \<open>
  The loop over the sorted artifacts. \<open>except Exception\<close> counts a failure; an exception
  that does not derive from \<open>Exception\<close> leaves the loop.
\<close>

fun process_all ::
  "(string \<Rightarrow> 'v option) \<Rightarrow> (string \<Rightarrow> string \<Rightarrow> py_exc + outdir) \<Rightarrow> epw_index \<Rightarrow> string list \<Rightarrow> 'v tally
   \<Rightarrow> py_exc option \<times> 'v tally" where
  "process_all pf engine epw_idx [] t = (None, t)"
| "process_all pf engine epw_idx (idf_key # rest) t =
     (case process_artifact pf engine epw_idx (store t) idf_key of
        (Done, s) \<Rightarrow>
          process_all pf engine epw_idx rest
            (t\<lparr>store := s, successes := successes t + 1, processed_keys := processed_keys t @ [idf_key]\<rparr>)
      | (Skipped, s) \<Rightarrow>
          process_all pf engine epw_idx rest (t\<lparr>store := s, failures := failures t + 1\<rparr>)
      | (Raised e, s) \<Rightarrow>
          if is_Exception e
          then process_all pf engine epw_idx rest (t\<lparr>store := s, failures := failures t + 1\<rparr>)
          else (Some e, t\<lparr>store := s\<rparr>))"

definition run_energy_simulation_from_env ::
  "settings \<Rightarrow> (string \<Rightarrow> 'v option) \<Rightarrow> (string \<Rightarrow> string \<Rightarrow> py_exc + outdir) \<Rightarrow> string list \<Rightarrow> 'v bucket
   \<Rightarrow> (py_exc + summary) \<times> 'v bucket" where
  "run_energy_simulation_from_env cfg pf engine object_keys s =
     (let epw_idx = index_epws_s3 object_keys (S3_EPW_PREFIX cfg)
      in if epw_idx = []
         then (Inl (SystemExit (''No EPWs under s3://'' @ S3_BUCKET cfg @ ''/'' @ S3_EPW_PREFIX cfg)), s)
         else
           (let idf_objs = filter (\<lambda>key. ends_with (lower key) ''.idf'')
                                  (list_objects_all object_keys (S3_IDF_PREFIX cfg))
            in if idf_objs = []
               then (Inl (SystemExit (''No IDFs under s3://'' @ S3_BUCKET cfg @ ''/'' @ S3_IDF_PREFIX cfg)), s)
               else
                 (case process_all pf engine epw_idx (sort idf_objs)
                         \<lparr>store = s, successes = 0, failures = 0, processed_keys = []\<rparr> of
                    (Some e, t) \<Rightarrow> (Inl e, store t)
                  | (None, t) \<Rightarrow>
                      (Inr \<lparr>bucket = S3_BUCKET cfg,
                            idf_prefix = rstrip_slash (S3_IDF_PREFIX cfg),
                            epw_prefix = rstrip_slash (S3_EPW_PREFIX cfg),
                            results_total_key = TOTAL_XLSX_KEY,
                            results_per_area_key = PERAREA_XLSX_KEY,
                            processed = take 10 (processed_keys t),
                            count_success = successes t,
                            count_failed = failures t,
                            count_total = length idf_objs\<rparr>,
                       store t))))"

section \<open>The run adapter\<close>

text \<open>
  A run record is the dictionary \<open>create_run\<close> stores under the run id. The adapter state
  is the dictionary of the runs and the list of the run ids whose background execution
  has been started and has not ended yet.
\<close>

datatype RunState = PENDING | INITIALISED | RUNNING | SUCCEEDED | ERROR

type_synonym config = "(string \<times> string) list"

record run =
  state :: RunState
  config :: config
  thread :: "string option"
  result :: "summary option"
  error :: "string option"

record adapter =
  runs :: "string \<Rightarrow> run option"
  executing :: "string list"

definition new_adapter :: adapter where
  "new_adapter = \<lparr>runs = (\<lambda>run_id. None), executing = []\<rparr>"

definition no_such_run :: "string \<Rightarrow> py_exc" where
  "no_such_run run_id = KeyError (''Run '' @ run_id @ '' does not exist'')"

text \<open>\<open>create_run\<close> takes the identifier that \<open>uuid4\<close> has drawn.\<close>

definition create_run :: "adapter \<Rightarrow> string \<Rightarrow> string \<times> adapter" where
  "create_run a run_id =
     (run_id,
      a\<lparr>runs := (runs a)(run_id \<mapsto>
           \<lparr>state = PENDING, config = [], thread = None, result = None, error = None\<rparr>)\<rparr>)"

definition initialise_run :: "adapter \<Rightarrow> string \<Rightarrow> config \<Rightarrow> (py_exc + run) \<times> adapter" where
  "initialise_run a run_id cfg =
     (case runs a run_id of
        None \<Rightarrow> (Inl (no_such_run run_id), a)
      | Some r \<Rightarrow>
          (let r = (if state r \<in> set [PENDING, INITIALISED] then r\<lparr>state := INITIALISED\<rparr> else r)
           in (Inr r, a\<lparr>runs := (runs a)(run_id \<mapsto> r)\<rparr>)))"

definition start_run :: "adapter \<Rightarrow> string \<Rightarrow> (py_exc + run) \<times> adapter" where
  "start_run a run_id =
     (case runs a run_id of
        None \<Rightarrow> (Inl (no_such_run run_id), a)
      | Some r \<Rightarrow>
          if state r \<in> set [RUNNING, SUCCEEDED, ERROR] then (Inr r, a)
          else
            (let r = r\<lparr>state := RUNNING, thread := Some run_id\<rparr>
             in (Inr r, a\<lparr>runs := (runs a)(run_id \<mapsto> r), executing := executing a @ [run_id]\<rparr>)))"

text \<open>
  \<open>exec_run\<close> is the body of the background thread, given how the call of the model
  function ended. It returns the exception that leaves it, if one does. The process
  environment, which it swaps around the call, is not part of the adapter state.
\<close>

definition exec_run :: "adapter \<Rightarrow> string \<Rightarrow> py_exc + summary \<Rightarrow> py_exc option \<times> adapter" where
  "exec_run a run_id outcome =
     (case outcome of
        Inr out \<Rightarrow>
          (case runs a run_id of
             Some r \<Rightarrow> (None, a\<lparr>runs := (runs a)(run_id \<mapsto> r\<lparr>state := SUCCEEDED, result := Some out\<rparr>)\<rparr>)
           | None \<Rightarrow> (None, a))
      | Inl e \<Rightarrow>
          if is_Exception e then
            (case runs a run_id of
               Some r \<Rightarrow> (None, a\<lparr>runs := (runs a)(run_id \<mapsto> r\<lparr>state := ERROR, error := Some (exc_str e)\<rparr>)\<rparr>)
             | None \<Rightarrow> (None, a))
          else (Some e, a))"

definition get_run :: "adapter \<Rightarrow> string \<Rightarrow> py_exc + run" where
  "get_run a run_id = (case runs a run_id of None \<Rightarrow> Inl (no_such_run run_id) | Some r \<Rightarrow> Inr r)"

definition remove_run :: "adapter \<Rightarrow> string \<Rightarrow> adapter" where
  "remove_run a run_id = a\<lparr>runs := (runs a)(run_id := None)\<rparr>"

section \<open>Notions used by the properties\<close>

text \<open>
  The three scenarios of the filename patterns, in the dotted form of the simulation
  artifacts and in the undotted form of the weather artifacts. A string denotes a form
  when it is that form up to letter case, as the patterns ignore case.
\<close>

datatype scenario = Rcp85 | Rcp45 | Rcp26

fun dotted :: "scenario \<Rightarrow> string" where
  "dotted Rcp85 = ''RCP8.5''"
| "dotted Rcp45 = ''RCP4.5''"
| "dotted Rcp26 = ''RCP2.6''"

fun undotted :: "scenario \<Rightarrow> string" where
  "undotted Rcp85 = ''RCP85''"
| "undotted Rcp45 = ''RCP45''"
| "undotted Rcp26 = ''RCP26''"

definition denotes :: "string \<Rightarrow> string \<Rightarrow> bool" where
  "denotes s form = (upper s = form)"


text \<open>
  The header pair of a column, and the invariant of a matrix: the columns from 2 to the
  last one carry pairwise different header pairs.
\<close>

definition header_pair :: "'v worksheet \<Rightarrow> nat \<Rightarrow> string \<times> string" where
  "header_pair ws col = (header_text ws 1 col, header_text ws 2 col)"

definition distinct_headers :: "'v worksheet \<Rightarrow> bool" where
  "distinct_headers ws =
     distinct (map (header_pair ws) [2 ..< (if max_column ws = 0 then 1 else max_column ws) + 1])"

text \<open>
  The adapter as a transition system. Its events are the calls of its methods and the
  end of a background execution with the outcome of the model function. \<open>uuid4\<close> draws an
  identifier that no stored run and no execution in progress carries; an execution can
  only end while it is in progress.
\<close>

datatype event =
    Create string
  | Initialise string config
  | Start string
  | Finish string "py_exc + summary"
  | Remove string

fun step :: "adapter \<Rightarrow> event \<Rightarrow> adapter option" where
  "step a (Create run_id) =
     (if runs a run_id = None \<and> run_id \<notin> set (executing a) then Some (snd (create_run a run_id)) else None)"
| "step a (Initialise run_id cfg) = Some (snd (initialise_run a run_id cfg))"
| "step a (Start run_id) = Some (snd (start_run a run_id))"
| "step a (Finish run_id outcome) =
     (if run_id \<in> set (executing a)
      then Some ((snd (exec_run a run_id outcome))\<lparr>executing := remove1 run_id (executing a)\<rparr>)
      else None)"
| "step a (Remove run_id) = Some (remove_run a run_id)"

inductive reachable :: "adapter \<Rightarrow> bool" where
  initial: "reachable new_adapter"
| after: "reachable a \<Longrightarrow> step a e = Some a' \<Longrightarrow> reachable a'"

text \<open>
  The changes of state the specification lists, and the ones the adapter makes.
\<close>

definition listed_transitions :: "(RunState \<times> RunState) set" where
  "listed_transitions =
     {(PENDING, INITIALISED), (INITIALISED, RUNNING), (RUNNING, SUCCEEDED), (RUNNING, ERROR)}"

definition transitions :: "(RunState \<times> RunState) set" where
  "transitions =
     {(PENDING, INITIALISED), (PENDING, RUNNING), (INITIALISED, RUNNING),
      (RUNNING, SUCCEEDED), (RUNNING, ERROR)}"

text \<open>
  What the search of a text report looks for, row by row. A row is blank when it has no
  cell or only empty cells, and named when its first cell is the row name. The header of
  a subsection row \<open>j\<close> is the first header row among the 14 rows after it; a metric
  column is the first cell of the header that contains the phrase; the data row is the
  first named row below the header, with no blank row between them, and it gives the
  pair read at the two columns. \<open>yields_at\<close> puts them together for a title row \<open>i\<close> and a
  subsection row \<open>j\<close> among the 39 rows after it.
\<close>

definition blank_row :: "row \<Rightarrow> bool" where
  "blank_row r = list_all (\<lambda>c. c = []) r"

definition named_row :: "row \<Rightarrow> bool" where
  "named_row r = (case r of [] \<Rightarrow> False | c0 # cs \<Rightarrow> lower (strip c0) = ''total site energy'')"

definition read_row :: "(string \<Rightarrow> 'v option) \<Rightarrow> nat \<Rightarrow> nat \<Rightarrow> row \<Rightarrow> 'v option \<times> 'v option" where
  "read_row pf ct cp r =
     (if ct < length r then safe_float pf (r ! ct) else None,
      if cp < length r then safe_float pf (r ! cp) else None)"

definition header_for :: "row list \<Rightarrow> nat \<Rightarrow> nat \<Rightarrow> bool" where
  "header_for rows j k =
     (j < k \<and> k \<le> j + 14 \<and> k < length rows \<and> is_header_row (rows ! k)
      \<and> (\<forall>k'. j < k' \<and> k' < k \<longrightarrow> \<not> is_header_row (rows ! k')))"

definition header_col :: "string \<Rightarrow> row \<Rightarrow> nat \<Rightarrow> bool" where
  "header_col phrase r c =
     (c < length r \<and> contains phrase (lower (r ! c))
      \<and> (\<forall>c'. c' < c \<longrightarrow> \<not> contains phrase (lower (r ! c'))))"

definition data_below ::
  "(string \<Rightarrow> 'v option) \<Rightarrow> row list \<Rightarrow> nat \<Rightarrow> nat \<Rightarrow> nat \<Rightarrow> 'v option \<times> 'v option \<Rightarrow> bool" where
  "data_below pf rows k ct cp res =
     (\<exists>m. k < m \<and> m < length rows \<and> named_row (rows ! m)
        \<and> (\<forall>m'. k < m' \<and> m' < m \<longrightarrow> \<not> blank_row (rows ! m') \<and> \<not> named_row (rows ! m'))
        \<and> res = read_row pf ct cp (rows ! m))"

definition yields_at ::
  "(string \<Rightarrow> 'v option) \<Rightarrow> row list \<Rightarrow> nat \<Rightarrow> nat \<Rightarrow> 'v option \<times> 'v option \<Rightarrow> bool" where
  "yields_at pf rows i j res =
     (i < j \<and> j \<le> i + 39 \<and> j < length rows
      \<and> any_cell_contains ''annual building utility performance summary'' (rows ! i)
      \<and> any_cell_contains ''site and source energy'' (rows ! j)
      \<and> (\<exists>k ct cp. header_for rows j k
            \<and> header_col ''total energy'' (rows ! k) ct
            \<and> header_col ''energy per total building area'' (rows ! k) cp
            \<and> data_below pf rows k ct cp res))"

text \<open>The characters a pattern can consume.\<close>

fun rx_alphabet :: "rx \<Rightarrow> char list" where
  "rx_alphabet Eps = []"
| "rx_alphabet (Lit cs) = cs"
| "rx_alphabet (Seq a b) = rx_alphabet a @ rx_alphabet b"
| "rx_alphabet (Alt a b) = rx_alphabet a @ rx_alphabet b"
| "rx_alphabet (Opt a) = rx_alphabet a"
| "rx_alphabet (Grp a) = rx_alphabet a"
| "rx_alphabet Eos = []"

section \<open>Example inputs\<close>

text \<open>
  In the examples the cells hold whole numbers, and \<open>float()\<close> is taken on them only.
\<close>

definition whole_number :: "string \<Rightarrow> int option" where
  "whole_number s = py_int s"

definition example_settings :: settings where
  "example_settings =
     \<lparr>S3_BUCKET = ''mmstore'', S3_IDF_PREFIX = ''output_idf_files/'', S3_EPW_PREFIX = ''weather/epw/''\<rparr>"

definition example_sql :: "sql_row list" where
  "example_sql =
     [(''Site and Source Energy'', ''Total Site Energy'', ''Total Energy'', ''125000''),
      (''Site and Source Energy'', ''Total Site Energy'', ''Energy Per Total Building Area'', ''42'')]"

definition title_row :: row where
  "title_row = [''Report:'', ''Annual Building Utility Performance Summary'']"

definition subsection_row :: row where
  "subsection_row = [''Site and Source Energy'']"

definition header_row :: row where
  "header_row = ['''', ''Total Energy [GJ]'', ''Energy Per Total Building Area [MJ/m2]'']"

definition data_row :: row where
  "data_row = [''Total Site Energy'', ''125,000'', '' 42 '']"

text \<open>
  A report with \<open>a\<close> filler rows between the title row and the subsection row, and \<open>b\<close>
  filler rows between the subsection row and the header row.
\<close>

definition report :: "nat \<Rightarrow> nat \<Rightarrow> row list" where
  "report a b =
     title_row # replicate a [''x''] @ subsection_row # replicate b [''y''] @ [header_row, data_row]"

definition empty_bucket :: "int bucket" where
  "empty_bucket = (\<lambda>key. None)"

definition engine_with_sql :: "string \<Rightarrow> string \<Rightarrow> py_exc + outdir" where
  "engine_with_sql idf_key epw_key =
     Inr \<lparr>eplusout_sql = Some (TabularView example_sql), eplustbl_tab = None, eplustbl_csv = None\<rparr>"







definition pending_run :: run where
  "pending_run = \<lparr>state = PENDING, config = [], thread = None, result = None, error = None\<rparr>"

definition one_run_adapter :: adapter where
  "one_run_adapter = snd (create_run new_adapter ''run-1'')"

definition started_adapter :: adapter where
  "started_adapter = snd (start_run one_run_adapter ''run-1'')"

section \<open>Notions used by the proofs\<close>

text \<open>
  The last column the scan of \<open>col_for_pair\<close> reaches, the column it appends when the scan
  finds nothing, and the sheet with that column.
\<close>

definition eff_max_col :: "'v worksheet \<Rightarrow> nat" where
  "eff_max_col ws = (if max_column ws = 0 then 1 else max_column ws)"

definition new_col :: "'v worksheet \<Rightarrow> nat" where
  "new_col ws = (if eff_max_col ws \<ge> 2 then eff_max_col ws + 1 else 2)"

definition with_new_col :: "'v worksheet \<Rightarrow> string \<Rightarrow> string \<Rightarrow> 'v worksheet" where
  "with_new_col ws climate aging =
     (set_header_cell (set_header_cell ws 1 (new_col ws) climate) 2 (new_col ws) aging)
       \<lparr>widths := (widths ws)(new_col ws \<mapsto> 16)\<rparr>"

text \<open>
  The search as list functions: the first result among those of a list of
  attempts, the attempt at a subsection row, and the attempt at a title row.
\<close>

fun first_some :: "'a option list \<Rightarrow> 'a option" where
  "first_some [] = None"
| "first_some (None # xs) = first_some xs"
| "first_some (Some x # xs) = Some x"

definition below :: "(string \<Rightarrow> 'v option) \<Rightarrow> row list \<Rightarrow> nat \<Rightarrow> ('v option \<times> 'v option) option" where
  "below pf rows j =
     (if any_cell_contains ''site and source energy'' (rows ! j) then
        (case find (\<lambda>k. is_header_row (rows ! k)) [j + 1 ..< min (j + 15) (length rows)] of
           None \<Rightarrow> None
         | Some k \<Rightarrow>
             (case first_index (contains ''total energy'') (map lower (rows ! k)) of
                None \<Rightarrow> None
              | Some ct \<Rightarrow>
                  (case first_index (contains ''energy per total building area'') (map lower (rows ! k)) of
                     None \<Rightarrow> None
                   | Some cp \<Rightarrow> scan_data pf ct cp (drop (k + 1) rows))))
      else None)"

definition section_try :: "(string \<Rightarrow> 'v option) \<Rightarrow> row list \<Rightarrow> nat \<Rightarrow> ('v option \<times> 'v option) option" where
  "section_try pf rows i =
     (if any_cell_contains ''annual building utility performance summary'' (rows ! i)
      then first_some (map (below pf rows) [i + 1 ..< min (i + 40) (length rows)])
      else None)"

text \<open>
  The invariant of the adapter: the executions in progress are of different runs, and a
  stored run with an execution in progress is in state RUNNING.
\<close>

definition executing_ok :: "adapter \<Rightarrow> bool" where
  "executing_ok a =
     (distinct (executing a) \<and>
      (\<forall>run_id \<in> set (executing a). \<forall>r. runs a run_id = Some r \<longrightarrow> state r = RUNNING))"

section \<open>Writing a metric\<close>

text \<open>
  C7: for every matrix key, scenario, aging code and year, writing an absent metric value
  is a no-op: the call ends normally and the bucket, and so the persisted workbook of
  every key, is the one it was given; no cell is created or changed and no zero is written.
\<close>

theorem write_absent_value_noop:
  "write_result_to_s3 s key climate aging year None = (Inr (), s)"
  by (simp add: write_result_to_s3_def)

text \<open>
  C5: for every year strictly below \<open>YEARS_START\<close> or strictly above \<open>YEARS_END\<close>, writing
  a present metric value fails with the year-out-of-range error, and the bucket it leaves
  is the bucket it was given: the stored grid document is unchanged.
\<close>

theorem write_year_out_of_range:
  "year < YEARS_START \<or> year > YEARS_END \<Longrightarrow>
   write_result_to_s3 s key climate aging year (Some v) = (Inl (year_error year), s)"
  by (auto simp add: write_result_to_s3_def row_for_year_def Let_def split: prod.splits)

theorem write_year_out_of_range_witness:
  "(2024::int) < YEARS_START \<and>
   write_result_to_s3 empty_bucket TOTAL_XLSX_KEY ''RCP85'' ''E12'' 2024 (Some 1)
     = (Inl (year_error 2024), empty_bucket)"
  using write_year_out_of_range [of 2024 empty_bucket TOTAL_XLSX_KEY "''RCP85''" "''E12''" 1]
  by (simp add: YEARS_START_def)

section \<open>Scenario normalisation\<close>

lemma nodot_dotted: "map_rcp_dot_to_nodot (dotted k) = undotted k"
  by (cases k; hypsubst; code_simp)

lemma nodot_undotted: "map_rcp_dot_to_nodot (undotted k) = undotted k"
  by (cases k; hypsubst; code_simp)

lemma upper_idem: "upper (upper s) = upper s"
  by (induction s) (auto simp: upper_def upper_char_def Let_def)

lemma nodot_upper: "map_rcp_dot_to_nodot s = map_rcp_dot_to_nodot (upper s)"
  by (simp add: map_rcp_dot_to_nodot_def upper_idem)

text \<open>
  C8: for every pair of scenario strings that denote the same scenario, one in dotted
  form and one in undotted form, normalisation maps both to the same canonical value,
  the undotted form in capitals.
\<close>

theorem scenario_forms_normalise_equal:
  "denotes d (dotted k) \<Longrightarrow> denotes u (undotted k) \<Longrightarrow>
   map_rcp_dot_to_nodot d = map_rcp_dot_to_nodot u \<and> map_rcp_dot_to_nodot d = undotted k"
  using nodot_upper [of d] nodot_upper [of u]
  by (simp add: denotes_def nodot_dotted nodot_undotted)

theorem scenario_forms_normalise_equal_witness:
  "denotes ''rcp8.5'' (dotted Rcp85) \<and> denotes ''RCP85'' (undotted Rcp85) \<and>
   map_rcp_dot_to_nodot ''rcp8.5'' = map_rcp_dot_to_nodot ''RCP85'' \<and>
   map_rcp_dot_to_nodot ''rcp8.5'' = ''RCP85''"
proof -
  have a: "denotes ''rcp8.5'' (dotted Rcp85)" by code_simp
  have b: "denotes ''RCP85'' (undotted Rcp85)" by code_simp
  note c = scenario_forms_normalise_equal [OF a b]
  from c have c1: "map_rcp_dot_to_nodot ''rcp8.5'' = map_rcp_dot_to_nodot ''RCP85''"
    by (rule conjunct1)
  have c2: "map_rcp_dot_to_nodot ''rcp8.5'' = ''RCP85''"
    using c [THEN conjunct2] unfolding undotted.simps .
  show ?thesis using a b c1 c2 by blast
qed

section \<open>Parsing artifact names\<close>

text \<open>
  C2: a filename whose aging-code number exceeds 28 is claimed to be a parse failure that
  is skipped and counted as a failure. The pattern's alternative \<open>[12]?\d\<close> already
  matches 29: the name below parses, and a batch that holds this one artifact and its
  weather file runs it, counts one success and no failure, and writes its column.
\<close>

theorem aging_code_29_parses:
  "parse_idf_filename ''RCP8.5_E29_2030.idf'' = Inr (''RCP8.5'', ''E29'', 2030)
   \<and> (case run_energy_simulation_from_env example_settings whole_number engine_with_sql
             [''output_idf_files/RCP8.5_E29_2030.idf'', ''weather/epw/Rotterdam_RCP85_2030.epw'']
             empty_bucket of
        (res, s) \<Rightarrow>
          map_sum id (\<lambda>r. (count_success r, count_failed r, count_total r)) res = Inr (1, 0, 1)
        \<and> map_option (\<lambda>ws. (header_cells ws (1, 2), header_cells ws (2, 2), number_cells ws (8, 2)))
             (s TOTAL_XLSX_KEY)
           = Some (Some ''RCP85'', Some ''E29'', Some (PyFloat 125000)))"
  by code_simp

section \<open>A run whose weather index is empty\<close>

text \<open>
  C1: a run whose execution finds the weather index empty is claimed to end in state
  ERROR with the captured message. The model function raises \<open>SystemExit\<close>, which
  \<open>except Exception\<close> in the thread body does not catch: the exception leaves the
  thread, the record is not touched, and a status query after it reports RUNNING with no
  error.
\<close>

theorem empty_weather_index_leaves_run_running:
  "(case create_run new_adapter ''run-1'' of (run_id, a1) \<Rightarrow>
    case start_run a1 run_id of (started, a2) \<Rightarrow>
    case run_energy_simulation_from_env example_settings whole_number engine_with_sql
           [''output_idf_files/RCP8.5_E12_2030.idf''] empty_bucket of (outcome, s) \<Rightarrow>
    case exec_run a2 run_id outcome of (escaped, a3) \<Rightarrow>
      outcome = Inl (SystemExit ''No EPWs under s3://mmstore/weather/epw/'')
    \<and> escaped = Some (SystemExit ''No EPWs under s3://mmstore/weather/epw/'')
    \<and> map_sum id (\<lambda>r. (state r, error r)) (get_run a3 run_id) = Inr (RUNNING, None))"
  by code_simp

section \<open>Column resolution\<close>

lemma distinct_headers_eff:
  "distinct_headers ws = distinct (map (header_pair ws) [2 ..< eff_max_col ws + 1])"
  by (simp add: distinct_headers_def eff_max_col_def)

lemma find_append_last:
  "find P xs = None \<Longrightarrow> P x \<Longrightarrow> find P (xs @ [x]) = Some x"
  by (induction xs) (auto split: if_splits)

lemma find_cong_set: "(\<And>x. x \<in> set xs \<Longrightarrow> P x = Q x) \<Longrightarrow> find P xs = find Q xs"
  by (induction xs) auto

lemma col_for_pair_found:
  assumes "find (\<lambda>col. header_text ws 1 col = climate \<and> header_text ws 2 col = aging)
             [2 ..< eff_max_col ws + 1] = Some col"
  shows "col_for_pair ws climate aging = (col, ws)"
  using assms by (simp add: col_for_pair_def eff_max_col_def Let_def)

lemma col_for_pair_not_found:
  assumes "find (\<lambda>col. header_text ws 1 col = climate \<and> header_text ws 2 col = aging)
             [2 ..< eff_max_col ws + 1] = None"
  shows "col_for_pair ws climate aging = (new_col ws, with_new_col ws climate aging)"
  using assms
  by (simp add: col_for_pair_def eff_max_col_def new_col_def with_new_col_def Let_def set_header_cell_def)

lemma new_col_range: "[2 ..< new_col ws + 1] = [2 ..< eff_max_col ws + 1] @ [new_col ws]"
  by (auto simp: new_col_def eff_max_col_def)

lemma new_col_max: "eff_max_col (with_new_col ws climate aging) = new_col ws"
  by (auto simp: with_new_col_def set_header_cell_def eff_max_col_def new_col_def)

lemma with_new_col_old:
  "c \<in> set [2 ..< eff_max_col ws + 1] \<Longrightarrow> header_text (with_new_col ws climate aging) r c = header_text ws r c"
  by (auto simp: with_new_col_def header_text_def set_header_cell_def new_col_def)

lemma with_new_col_new:
  "header_text (with_new_col ws climate aging) 1 (new_col ws) = strip climate"
  "header_text (with_new_col ws climate aging) 2 (new_col ws) = strip aging"
  by (auto simp: with_new_col_def header_text_def set_header_cell_def)

lemma col_for_pair_twice:
  "strip climate = climate \<Longrightarrow> strip aging = aging \<Longrightarrow>
   col_for_pair ws climate aging = (col, ws') \<Longrightarrow>
     col_for_pair ws' climate aging = (col, ws')
   \<and> header_pair ws' col = (climate, aging)
   \<and> (distinct_headers ws \<longrightarrow> distinct_headers ws')"
proof -
  assume sc: "strip climate = climate" and sa: "strip aging = aging"
    and call: "col_for_pair ws climate aging = (col, ws')"
  let ?P = "\<lambda>w c. header_text w 1 c = climate \<and> header_text w 2 c = aging"
  show ?thesis
  proof (cases "find (?P ws) [2 ..< eff_max_col ws + 1]")
    case (Some c)
    with call have eq: "col = c" "ws' = ws" by (simp_all add: col_for_pair_found)
    from Some have "?P ws c" by (auto simp: find_Some_iff)
    with Some eq show ?thesis by (simp add: col_for_pair_found header_pair_def)
  next
    case None
    with call have eq: "col = new_col ws" "ws' = with_new_col ws climate aging"
      by (simp_all add: col_for_pair_not_found)
    have old: "find (?P ws') [2 ..< eff_max_col ws + 1] = None"
      using None find_cong_set [of "[2 ..< eff_max_col ws + 1]" "?P ws'" "?P ws"]
      by (simp add: eq with_new_col_old)
    have new: "?P ws' (new_col ws)"
      using with_new_col_new [of ws climate aging] sc sa by (simp add: eq)
    have "find (?P ws') [2 ..< eff_max_col ws' + 1] = Some (new_col ws)"
      unfolding eq new_col_max new_col_range using old new eq by (simp add: find_append_last)
    then have again: "col_for_pair ws' climate aging = (col, ws')"
      by (simp add: col_for_pair_found eq)
    have pair: "header_pair ws' col = (climate, aging)"
      using new by (simp add: header_pair_def eq)
    have dist: "distinct_headers ws'" if d: "distinct_headers ws"
    proof -
      have m: "map (header_pair ws') [2 ..< eff_max_col ws + 1] = map (header_pair ws) [2 ..< eff_max_col ws + 1]"
        by (rule map_cong) (simp_all add: header_pair_def eq with_new_col_old)
      have fresh: "(climate, aging) \<notin> set (map (header_pair ws) [2 ..< eff_max_col ws + 1])"
        using None by (auto simp: find_None_iff header_pair_def)
      have d': "distinct (map (header_pair ws) [2 ..< eff_max_col ws + 1])"
        using d by (simp only: distinct_headers_eff)
      have p': "header_pair ws' (new_col ws) = (climate, aging)"
        using pair by (simp only: eq)
      have "distinct (map (header_pair ws') ([2 ..< eff_max_col ws + 1] @ [new_col ws]))"
        unfolding map_append m using d' fresh p' by simp
      then have "distinct (map (header_pair ws') [2 ..< eff_max_col ws' + 1])"
        using new_col_max [of ws climate aging] new_col_range [of ws] by (simp only: eq)
      then show ?thesis by (simp only: distinct_headers_eff)
    qed
    from again pair dist show ?thesis by blast
  qed
qed

lemma rx_run_alphabet:
  "(gs', rest) \<in> set (rx_run r (gs, s)) \<Longrightarrow> set (rx_alphabet r) \<subseteq> A \<Longrightarrow>
   \<forall>g \<in> set gs. set g \<subseteq> A \<Longrightarrow>
   (\<forall>g \<in> set gs'. set g \<subseteq> A) \<and> (\<exists>cons. s = cons @ rest \<and> set cons \<subseteq> A)"
proof (induction r arbitrary: gs s gs' rest)
  case Eps
  then show ?case by simp
next
  case (Lit cs)
  then show ?case by (cases s) (auto split: if_splits)
next
  case (Seq a b)
  from Seq.prems(1) obtain g1 r1 where
    a: "(g1, r1) \<in> set (rx_run a (gs, s))" and b: "(gs', rest) \<in> set (rx_run b (g1, r1))"
    by auto
  from Seq.prems(2) have sa: "set (rx_alphabet a) \<subseteq> A" and sb: "set (rx_alphabet b) \<subseteq> A"
    by simp_all
  from Seq.IH(1) [OF a sa Seq.prems(3)] obtain c1 where
    g1: "\<forall>g \<in> set g1. set g \<subseteq> A" and c1: "s = c1 @ r1" "set c1 \<subseteq> A" by blast
  from Seq.IH(2) [OF b sb g1] obtain c2 where
    g2: "\<forall>g \<in> set gs'. set g \<subseteq> A" and c2: "r1 = c2 @ rest" "set c2 \<subseteq> A" by blast
  from c1 c2 have "s = (c1 @ c2) @ rest \<and> set (c1 @ c2) \<subseteq> A" by simp
  then have "\<exists>cons. s = cons @ rest \<and> set cons \<subseteq> A" by (rule exI)
  with g2 show ?case by (rule conjI)
next
  case (Alt a b)
  from Alt.prems(2) have sa: "set (rx_alphabet a) \<subseteq> A" and sb: "set (rx_alphabet b) \<subseteq> A"
    by simp_all
  from Alt.prems(1) have "(gs', rest) \<in> set (rx_run a (gs, s)) \<or> (gs', rest) \<in> set (rx_run b (gs, s))"
    by simp
  then show ?case
  proof
    assume "(gs', rest) \<in> set (rx_run a (gs, s))"
    from Alt.IH(1) [OF this sa Alt.prems(3)] show ?thesis .
  next
    assume "(gs', rest) \<in> set (rx_run b (gs, s))"
    from Alt.IH(2) [OF this sb Alt.prems(3)] show ?thesis .
  qed
next
  case (Opt a)
  from Opt.prems(2) have sa: "set (rx_alphabet a) \<subseteq> A" by simp
  from Opt.prems(1) have "(gs', rest) \<in> set (rx_run a (gs, s)) \<or> (gs', rest) = (gs, s)"
    by auto
  then show ?case
  proof
    assume "(gs', rest) \<in> set (rx_run a (gs, s))"
    from Opt.IH [OF this sa Opt.prems(3)] show ?thesis .
  next
    assume "(gs', rest) = (gs, s)"
    with Opt.prems(3) show ?thesis by simp
  qed
next
  case (Grp a)
  from Grp.prems(2) have sa: "set (rx_alphabet a) \<subseteq> A" by simp
  from Grp.prems(1) obtain g1 where
    a: "(g1, rest) \<in> set (rx_run a (gs, s))" and g: "gs' = g1 @ [take (length s - length rest) s]"
    by auto
  from Grp.IH [OF a sa Grp.prems(3)] obtain cons where
    g1: "\<forall>g \<in> set g1. set g \<subseteq> A" and c: "s = cons @ rest" "set cons \<subseteq> A" by blast
  from c have "take (length s - length rest) s = cons" by simp
  with g g1 c show ?case by auto
next
  case Eos
  then show ?case by (auto split: if_splits)
qed

lemma re_match_alphabet:
  assumes "re_match r s = Some gs"
  shows "\<forall>g \<in> set gs. set g \<subseteq> set (rx_alphabet r)"
proof -
  from assms obtain rest more where "rx_run r ([], s) = (gs, rest) # more"
    by (auto simp: re_match_def split: list.splits)
  then have "(gs, rest) \<in> set (rx_run r ([], s))" by simp
  from rx_run_alphabet [OF this, of "set (rx_alphabet r)"] show ?thesis by simp
qed

lemma idf_alphabet_clean: "list_all (\<lambda>c. \<not> is_space (upper_char c)) (rx_alphabet IDF_NAME_RE)"
  by (simp add: IDF_NAME_RE_def year_rx_def ci_str_def ci_def digit_def upper_char_def
      lower_char_def is_space_def)

lemma no_space_strip:
  assumes "\<forall>c \<in> set s. \<not> is_space c"
  shows "strip s = s"
proof -
  have d: "dropWhile is_space xs = xs" if "\<forall>c \<in> set xs. \<not> is_space c" for xs
    using that by (cases xs) simp_all
  from assms have "dropWhile is_space s = s" by (rule d)
  moreover from assms have "dropWhile is_space (rev s) = rev s" by (intro d) simp
  ultimately show ?thesis by (simp add: strip_def)
qed

lemma set_replace: "set (replace old new s) \<subseteq> set s \<union> set new"
proof (induction old new s rule: replace.induct)
  case (1 old new)
  show ?case by auto
next
  case (2 old new c cs)
  show ?case
  proof (cases "old = []")
    case True
    with 2 show ?thesis by auto
  next
    case False
    show ?thesis
    proof (cases "starts_with (c # cs) old")
      case True
      have "set (drop (length old) (c # cs)) \<subseteq> set (c # cs)" by (rule set_drop_subset)
      with 2(2) [OF False True] False True show ?thesis by auto
    next
      case no: False
      with 2(3) [OF False no] False show ?thesis by auto
    qed
  qed
qed

lemma parsed_tokens_clean:
  assumes "parse_idf_filename name = Inr (rcp_dot, aging, year)"
  shows "(\<forall>c \<in> set rcp_dot. \<not> is_space c) \<and> (\<forall>c \<in> set aging. \<not> is_space c)
         \<and> upper rcp_dot = rcp_dot"
proof -
  from assms obtain g1 g2 g3 where
    m: "re_match IDF_NAME_RE name = Some [g1, g2, g3]"
    and r: "rcp_dot = upper g1" and a: "aging = upper g2"
    by (auto simp: parse_idf_filename_def split: option.splits list.splits)
  from re_match_alphabet [OF m]
  have "set g1 \<subseteq> set (rx_alphabet IDF_NAME_RE)" "set g2 \<subseteq> set (rx_alphabet IDF_NAME_RE)"
    by simp_all
  moreover have "\<forall>c \<in> set (rx_alphabet IDF_NAME_RE). \<not> is_space (upper_char c)"
    using idf_alphabet_clean by (simp add: list_all_iff)
  ultimately have "(\<forall>c \<in> set rcp_dot. \<not> is_space c) \<and> (\<forall>c \<in> set aging. \<not> is_space c)"
    using r a by (auto simp: upper_def)
  moreover have "upper rcp_dot = rcp_dot" using r by (simp add: upper_idem)
  ultimately show ?thesis by simp
qed

lemma passed_pair_stripped:
  assumes "parse_idf_filename name = Inr (rcp_dot, aging, year)"
  shows "strip (map_rcp_dot_to_nodot rcp_dot) = map_rcp_dot_to_nodot rcp_dot \<and> strip aging = aging"
proof -
  note c = parsed_tokens_clean [OF assms]
  let ?a = "replace '' '' '''' rcp_dot"
  let ?b = "replace ''8.5'' ''85'' ?a"
  let ?c = "replace ''4.5'' ''45'' ?b"
  have m: "map_rcp_dot_to_nodot rcp_dot = replace ''2.6'' ''26'' ?c"
    using c by (simp add: map_rcp_dot_to_nodot_def)
  have s1: "set ?a \<subseteq> set rcp_dot" using set_replace [of "'' ''" "''''" rcp_dot] by simp
  have s2: "set ?b \<subseteq> set ?a \<union> set ''85''" by (rule set_replace)
  have s3: "set ?c \<subseteq> set ?b \<union> set ''45''" by (rule set_replace)
  have s4: "set (replace ''2.6'' ''26'' ?c) \<subseteq> set ?c \<union> set ''26''" by (rule set_replace)
  have sub: "set (map_rcp_dot_to_nodot rcp_dot) \<subseteq> set rcp_dot \<union> set ''854526''"
    unfolding m using s1 s2 s3 s4 by auto
  have digits: "\<forall>c \<in> set ''854526''. \<not> is_space c" by (simp add: is_space_def)
  from sub c digits have "\<forall>c \<in> set (map_rcp_dot_to_nodot rcp_dot). \<not> is_space c" by blast
  with c show ?thesis by (simp add: no_space_strip)
qed

text \<open>
  C6: column resolution is idempotent. The pairs it is called with come from a parsed
  filename, and such a pair has no leading or trailing whitespace. For every matrix state
  and every such pair, resolving the column a second time returns the same column and
  leaves the matrix as the first call left it, so no second column is created; the
  resolved column carries the header pair; and if the columns of the matrix carried
  pairwise different header pairs before the call, they do after it.
\<close>

theorem col_for_pair_idempotent:
  "(parse_idf_filename name = Inr (rcp_dot, code, year) \<longrightarrow>
      strip (map_rcp_dot_to_nodot rcp_dot) = map_rcp_dot_to_nodot rcp_dot \<and> strip code = code)
   \<and> (strip climate = climate \<and> strip aging = aging
        \<and> col_for_pair ws climate aging = (col, ws') \<longrightarrow>
          col_for_pair ws' climate aging = (col, ws')
        \<and> header_pair ws' col = (climate, aging)
        \<and> (distinct_headers ws \<longrightarrow> distinct_headers ws'))"
proof (rule conjI)
  show "parse_idf_filename name = Inr (rcp_dot, code, year) \<longrightarrow>
      strip (map_rcp_dot_to_nodot rcp_dot) = map_rcp_dot_to_nodot rcp_dot \<and> strip code = code"
  proof (rule impI)
    assume "parse_idf_filename name = Inr (rcp_dot, code, year)"
    then show "strip (map_rcp_dot_to_nodot rcp_dot) = map_rcp_dot_to_nodot rcp_dot \<and> strip code = code"
      by (rule passed_pair_stripped)
  qed
next
  show "strip climate = climate \<and> strip aging = aging
        \<and> col_for_pair ws climate aging = (col, ws') \<longrightarrow>
          col_for_pair ws' climate aging = (col, ws')
        \<and> header_pair ws' col = (climate, aging)
        \<and> (distinct_headers ws \<longrightarrow> distinct_headers ws')"
  proof (rule impI)
    assume a: "strip climate = climate \<and> strip aging = aging
        \<and> col_for_pair ws climate aging = (col, ws')"
    then have s1: "strip climate = climate" and s2: "strip aging = aging"
      and c: "col_for_pair ws climate aging = (col, ws')" by simp_all
    show "col_for_pair ws' climate aging = (col, ws')
        \<and> header_pair ws' col = (climate, aging)
        \<and> (distinct_headers ws \<longrightarrow> distinct_headers ws')"
      by (rule col_for_pair_twice [OF s1 s2 c])
  qed
qed

lemma parse_e12: "parse_idf_filename ''RCP8.5_E12_2030.idf'' = Inr (''RCP8.5'', ''E12'', 2030)"
  by code_simp

lemma nodot_rcp85: "map_rcp_dot_to_nodot ''RCP8.5'' = ''RCP85''"
  by code_simp

lemma init_distinct: "distinct_headers (init_workbook :: int worksheet)"
  by code_simp

lemma init_col: "fst (col_for_pair (init_workbook :: int worksheet) ''RCP85'' ''E12'') = 2"
  by code_simp

text \<open>
  The filename \<open>RCP8.5_E12_2030.idf\<close> gives the pair (RCP85, E12); on a fresh workbook it
  gets column 2, twice.
\<close>

theorem col_for_pair_idempotent_witness:
  "parse_idf_filename ''RCP8.5_E12_2030.idf'' = Inr (''RCP8.5'', ''E12'', 2030)
   \<and> map_rcp_dot_to_nodot ''RCP8.5'' = ''RCP85''
   \<and> strip ''RCP85'' = ''RCP85'' \<and> strip ''E12'' = ''E12''
   \<and> distinct_headers (init_workbook :: int worksheet)
   \<and> fst (col_for_pair (init_workbook :: int worksheet) ''RCP85'' ''E12'') = 2
   \<and> col_for_pair (snd (col_for_pair (init_workbook :: int worksheet) ''RCP85'' ''E12'')) ''RCP85'' ''E12''
        = (2, snd (col_for_pair (init_workbook :: int worksheet) ''RCP85'' ''E12''))
   \<and> header_pair (snd (col_for_pair (init_workbook :: int worksheet) ''RCP85'' ''E12'')) 2 = (''RCP85'', ''E12'')
   \<and> distinct_headers (snd (col_for_pair (init_workbook :: int worksheet) ''RCP85'' ''E12''))"
proof -
  note s = col_for_pair_idempotent [THEN conjunct1, THEN mp, OF parse_e12, unfolded nodot_rcp85]
  have call: "col_for_pair (init_workbook :: int worksheet) ''RCP85'' ''E12''
      = (2, snd (col_for_pair (init_workbook :: int worksheet) ''RCP85'' ''E12''))"
    using prod.collapse [of "col_for_pair (init_workbook :: int worksheet) ''RCP85'' ''E12''"]
    by (simp only: init_col)
  have h: "strip ''RCP85'' = ''RCP85'' \<and> strip ''E12'' = ''E12''
           \<and> col_for_pair (init_workbook :: int worksheet) ''RCP85'' ''E12''
               = (2, snd (col_for_pair (init_workbook :: int worksheet) ''RCP85'' ''E12''))"
    using s call by (intro conjI) simp_all
  note t = col_for_pair_idempotent [THEN conjunct2, THEN mp, OF h]
  show ?thesis
    using parse_e12 nodot_rcp85 s [THEN conjunct1] s [THEN conjunct2] init_distinct init_col
      t [THEN conjunct1] t [THEN conjunct2, THEN conjunct1]
      t [THEN conjunct2, THEN conjunct2, THEN mp, OF init_distinct]
    by (intro conjI)
qed

section \<open>Searching a text report, and the fallback chain\<close>

lemma row_at_ok: "j < length rows \<Longrightarrow> row_at rows j = Inr (rows ! j)"
  by (simp add: row_at_def)

lemma find_in_set: "find P xs = Some x \<Longrightarrow> x \<in> set xs \<and> P x"
  by (induction xs) (auto split: if_splits)

lemma find_header_find:
  "\<forall>k \<in> set ks. k < length rows \<Longrightarrow>
   find_header rows ks = Inr (find (\<lambda>k. is_header_row (rows ! k)) ks)"
  by (induction ks) (simp_all add: row_at_ok)

lemma try_subsections_first:
  assumes "\<forall>j \<in> set js. j < length rows"
  shows "try_subsections pf rows js = Inr (first_some (map (below pf rows) js))"
  using assms
proof (induction js)
  case Nil
  show ?case by simp
next
  case (Cons j js)
  then have jl: "j < length rows"
    and ih: "try_subsections pf rows js = Inr (first_some (map (below pf rows) js))" by simp_all
  let ?W = "[j + 1 ..< min (j + 15) (length rows)]"
  have fh: "find_header rows ?W = Inr (find (\<lambda>k. is_header_row (rows ! k)) ?W)"
    by (rule find_header_find) simp
  show ?case
  proof (cases "any_cell_contains ''site and source energy'' (rows ! j)")
    case False
    then show ?thesis by (simp add: row_at_ok jl ih below_def [of pf rows j])
  next
    case sub: True
    show ?thesis
    proof (cases "find (\<lambda>k. is_header_row (rows ! k)) ?W")
      case None
      with sub fh show ?thesis by (simp add: row_at_ok jl ih below_def [of pf rows j])
    next
      case (Some k)
      from find_in_set [OF Some] have kl: "k < length rows" by simp
      from sub fh Some kl show ?thesis
        by (simp add: row_at_ok jl ih below_def [of pf rows j] split: option.splits)
    qed
  qed
qed

lemma drop_eq_Cons:
  assumes "drop i xs = y # ys"
  shows "i < length xs \<and> xs ! i = y \<and> drop (Suc i) xs = ys"
proof -
  from assms have l: "i < length xs" by (cases "i < length xs") auto
  from Cons_nth_drop_Suc [OF l] assms show ?thesis using l by simp
qed

lemma try_sections_first:
  "rest = drop i rows \<Longrightarrow>
   try_sections pf rows i rest = Inr (first_some (map (section_try pf rows) [i ..< length rows]))"
proof (induction rest arbitrary: i)
  case Nil
  then have "length rows \<le> i" by simp
  then show ?case by simp
next
  case (Cons r rest)
  from drop_eq_Cons [OF Cons.prems [symmetric]]
  have il: "i < length rows" and ri: "rows ! i = r" and rest: "rest = drop (i + 1) rows" by auto
  note ih = Cons.IH [OF rest]
  have up: "[i ..< length rows] = i # [i + 1 ..< length rows]"
    using il by (simp add: upt_conv_Cons)
  have ts: "try_subsections pf rows [i + 1 ..< min (i + 40) (length rows)]
            = Inr (first_some (map (below pf rows) [i + 1 ..< min (i + 40) (length rows)]))"
    by (rule try_subsections_first) simp
  show ?case
  proof (cases "any_cell_contains ''annual building utility performance summary'' r")
    case False
    with ri ih show ?thesis by (simp add: up section_try_def)
  next
    case True
    with ri ih ts show ?thesis
      by (cases "first_some (map (below pf rows) [i + 1 ..< min (i + 40) (length rows)])")
         (simp_all add: up section_try_def)
  qed
qed

lemma fetch_from_tabular_text_first:
  "fetch_from_tabular_text pf (Some raw) =
     Inr (case first_some (map (section_try pf (map (map strip) raw)) [0 ..< length raw]) of
            Some res \<Rightarrow> res | None \<Rightarrow> (None, None))"
  using try_sections_first [of "map (map strip) raw" 0 "map (map strip) raw" pf]
  by (simp add: fetch_from_tabular_text_def split: option.splits)

lemma fetch_from_tabular_text_total: "\<exists>res. fetch_from_tabular_text pf txt = Inr res"
proof (cases "txt")
  case None
  then show ?thesis by (simp add: fetch_from_tabular_text_def)
next
  case (Some raw)
  then show ?thesis by (simp add: fetch_from_tabular_text_first)
qed

lemma find_upt_iff:
  "find P [a ..< b] = Some k \<longleftrightarrow> a \<le> k \<and> k < b \<and> P k \<and> (\<forall>k'. a \<le> k' \<and> k' < k \<longrightarrow> \<not> P k')"
proof
  assume "find P [a ..< b] = Some k"
  then obtain i where i: "i < length [a ..< b]" "P ([a ..< b] ! i)" "k = [a ..< b] ! i"
    "\<forall>j < i. \<not> P ([a ..< b] ! j)" by (auto simp: find_Some_iff)
  then have k: "k = a + i" "i < b - a" by simp_all
  have "\<not> P k'" if "a \<le> k'" "k' < k" for k'
  proof -
    from that k have "k' - a < i" by simp
    with i(4) have "\<not> P ([a ..< b] ! (k' - a))" by blast
    moreover from that k have "[a ..< b] ! (k' - a) = k'" by simp
    ultimately show ?thesis by simp
  qed
  with i k show "a \<le> k \<and> k < b \<and> P k \<and> (\<forall>k'. a \<le> k' \<and> k' < k \<longrightarrow> \<not> P k')" by simp
next
  assume r: "a \<le> k \<and> k < b \<and> P k \<and> (\<forall>k'. a \<le> k' \<and> k' < k \<longrightarrow> \<not> P k')"
  have nP: "\<not> P ([a ..< b] ! j)" if "j < k - a" for j
  proof -
    from r have kb: "k < b" and nP: "\<forall>k'. a \<le> k' \<and> k' < k \<longrightarrow> \<not> P k'" by simp_all
    from that kb have lt: "a + j < b" by simp
    from that have "a \<le> a + j \<and> a + j < k" by simp
    with nP have "\<not> P (a + j)" by blast
    with lt show ?thesis by simp
  qed
  from r have r3: "a \<le> k" "k < b" "P k" by simp_all
  then have "k - a < length [a ..< b]" "P ([a ..< b] ! (k - a))" "k = [a ..< b] ! (k - a)"
    by simp_all
  with nP have "k - a < length [a ..< b] \<and> P ([a ..< b] ! (k - a)) \<and> k = [a ..< b] ! (k - a)
             \<and> (\<forall>j < k - a. \<not> P ([a ..< b] ! j))" by simp
  then show "find P [a ..< b] = Some k" unfolding find_Some_iff by blast
qed

lemma first_some_find:
  "first_some (map f xs) = (case find (\<lambda>x. f x \<noteq> None) xs of None \<Rightarrow> None | Some x \<Rightarrow> f x)"
proof (induction xs)
  case Nil
  show ?case by simp
next
  case (Cons x xs)
  then show ?case by (cases "f x") simp_all
qed

lemma first_some_upt_Some:
  "first_some (map f [a ..< b]) = Some r \<longleftrightarrow>
   (\<exists>x. a \<le> x \<and> x < b \<and> f x = Some r \<and> (\<forall>y. a \<le> y \<and> y < x \<longrightarrow> f y = None))"
proof
  assume s: "first_some (map f [a ..< b]) = Some r"
  then obtain x where x: "find (\<lambda>x. f x \<noteq> None) [a ..< b] = Some x" and fx: "f x = Some r"
    by (auto simp: first_some_find split: option.splits)
  from x [unfolded find_upt_iff] fx
  show "\<exists>x. a \<le> x \<and> x < b \<and> f x = Some r \<and> (\<forall>y. a \<le> y \<and> y < x \<longrightarrow> f y = None)"
    by auto
next
  assume "\<exists>x. a \<le> x \<and> x < b \<and> f x = Some r \<and> (\<forall>y. a \<le> y \<and> y < x \<longrightarrow> f y = None)"
  then obtain x where x: "a \<le> x" "x < b" "f x = Some r" "\<forall>y. a \<le> y \<and> y < x \<longrightarrow> f y = None"
    by blast
  then have "find (\<lambda>x. f x \<noteq> None) [a ..< b] = Some x"
    unfolding find_upt_iff by simp
  with x(3) show "first_some (map f [a ..< b]) = Some r" by (simp add: first_some_find)
qed

lemma first_some_upt_None:
  "first_some (map f [a ..< b]) = None \<longleftrightarrow> (\<forall>x. a \<le> x \<and> x < b \<longrightarrow> f x = None)"
proof -
  have "first_some (map f xs) = None \<longleftrightarrow> (\<forall>x \<in> set xs. f x = None)" for xs
  proof (induction xs)
    case Nil
    show ?case by simp
  next
    case (Cons x xs)
    then show ?case by (cases "f x") simp_all
  qed
  then show ?thesis by auto
qed

lemma first_index_iff:
  "first_index P xs = Some c \<longleftrightarrow> c < length xs \<and> P (xs ! c) \<and> (\<forall>c'. c' < c \<longrightarrow> \<not> P (xs ! c'))"
proof (induction xs arbitrary: c)
  case Nil
  show ?case by simp
next
  case (Cons x xs)
  show ?case
  proof (cases "P x")
    case True
    then show ?thesis by (cases c) auto
  next
    case False
    show ?thesis
    proof (cases c)
      case 0
      with False show ?thesis by simp
    next
      case (Suc d)
      have "(\<forall>c'. c' < Suc d \<longrightarrow> \<not> P ((x # xs) ! c')) \<longleftrightarrow> (\<forall>c'. c' < d \<longrightarrow> \<not> P (xs ! c'))"
        using False by (auto simp: less_Suc_eq_0_disj)
      with Suc False Cons.IH [of d] show ?thesis by auto
    qed
  qed
qed

lemma header_col_iff:
  "first_index (contains phrase) (map lower r) = Some c \<longleftrightarrow> header_col phrase r c"
proof -
  have "(\<forall>c'. c' < c \<longrightarrow> \<not> contains phrase (map lower r ! c'))
        \<longleftrightarrow> (\<forall>c'. c' < c \<longrightarrow> \<not> contains phrase (lower (r ! c')))" if "c < length r"
    using that by auto
  then show ?thesis unfolding first_index_iff header_col_def by auto
qed

lemma header_for_iff:
  "find (\<lambda>k. is_header_row (rows ! k)) [j + 1 ..< min (j + 15) (length rows)] = Some k
   \<longleftrightarrow> header_for rows j k"
  unfolding find_upt_iff header_for_def by auto

lemma ex_nat_cases: "(\<exists>m::nat. Q m) \<longleftrightarrow> Q 0 \<or> (\<exists>m. Q (Suc m))"
  by (metis not0_implies_Suc)

lemma first_row_cases:
  "(\<exists>m. m < length (r # rest) \<and> N ((r # rest) ! m)
        \<and> (\<forall>m'. m' < m \<longrightarrow> R ((r # rest) ! m')) \<and> res = F ((r # rest) ! m))
   \<longleftrightarrow> (N r \<and> res = F r)
      \<or> (R r \<and> (\<exists>m. m < length rest \<and> N (rest ! m)
                   \<and> (\<forall>m'. m' < m \<longrightarrow> R (rest ! m')) \<and> res = F (rest ! m)))"
  (is "(\<exists>m. ?Q m) \<longleftrightarrow> ?A \<or> (R r \<and> (\<exists>m. ?Q' m))")
proof -
  have z: "?Q 0 \<longleftrightarrow> ?A" by simp
  have s: "?Q (Suc m) \<longleftrightarrow> R r \<and> ?Q' m" for m
    by (auto simp: All_less_Suc2)
  have e: "(\<exists>m. ?Q m) \<longleftrightarrow> ?Q 0 \<or> (\<exists>m. ?Q (Suc m))" by (rule ex_nat_cases)
  show ?thesis unfolding e z s by blast
qed

lemma scan_data_iff:
  "scan_data pf ct cp rs = Some res \<longleftrightarrow>
   (\<exists>m. m < length rs \<and> named_row (rs ! m)
        \<and> (\<forall>m'. m' < m \<longrightarrow> \<not> blank_row (rs ! m') \<and> \<not> named_row (rs ! m'))
        \<and> res = read_row pf ct cp (rs ! m))"
proof (induction rs)
  case Nil
  show ?case by simp
next
  case (Cons r2 rest)
  note c = first_row_cases [of r2 rest named_row "\<lambda>r. \<not> blank_row r \<and> \<not> named_row r" res
      "read_row pf ct cp"]
  have nb: "\<not> blank_row r2" if "named_row r2"
    using that by (cases r2) (auto simp: named_row_def blank_row_def strip_def lower_def)
  have sd: "scan_data pf ct cp (r2 # rest) =
     (if blank_row r2 then None
      else if named_row r2 then Some (read_row pf ct cp r2)
      else scan_data pf ct cp rest)"
    by (cases r2) (simp_all add: blank_row_def named_row_def read_row_def)
  show ?case
  proof (cases "blank_row r2")
    case True
    with nb have "\<not> named_row r2" by blast
    with True show ?thesis unfolding c sd by simp
  next
    case False
    show ?thesis
    proof (cases "named_row r2")
      case True
      with False show ?thesis unfolding c sd by auto
    next
      case nn: False
      with False Cons.IH show ?thesis unfolding c sd by simp
    qed
  qed
qed

lemma data_below_iff:
  "scan_data pf ct cp (drop (k + 1) rows) = Some res \<longleftrightarrow> data_below pf rows k ct cp res"
proof
  assume "scan_data pf ct cp (drop (k + 1) rows) = Some res"
  then obtain m where m: "m < length (drop (k + 1) rows)" "named_row (drop (k + 1) rows ! m)"
    "\<forall>m'. m' < m \<longrightarrow> \<not> blank_row (drop (k + 1) rows ! m') \<and> \<not> named_row (drop (k + 1) rows ! m')"
    "res = read_row pf ct cp (drop (k + 1) rows ! m)"
    unfolding scan_data_iff by blast
  let ?n = "k + 1 + m"
  from m(1) have n: "k < ?n" "?n < length rows" by simp_all
  have nth: "drop (k + 1) rows ! x = rows ! (k + 1 + x)" if "x \<le> m" for x
    using that m(1) by simp
  have "\<not> blank_row (rows ! m') \<and> \<not> named_row (rows ! m')" if "k < m'" "m' < ?n" for m'
  proof -
    from that have lt: "m' - (k + 1) < m" by simp
    with m(3) have "\<not> blank_row (drop (k + 1) rows ! (m' - (k + 1)))
                    \<and> \<not> named_row (drop (k + 1) rows ! (m' - (k + 1)))" by blast
    moreover from that lt have "drop (k + 1) rows ! (m' - (k + 1)) = rows ! m'"
      using nth [of "m' - (k + 1)"] by simp
    ultimately show ?thesis by simp
  qed
  with n m(2,4) nth [of m] show "data_below pf rows k ct cp res"
    unfolding data_below_def by (intro exI [of _ ?n]) simp
next
  assume "data_below pf rows k ct cp res"
  then obtain n where n: "k < n" "n < length rows" "named_row (rows ! n)"
    "\<forall>m'. k < m' \<and> m' < n \<longrightarrow> \<not> blank_row (rows ! m') \<and> \<not> named_row (rows ! m')"
    "res = read_row pf ct cp (rows ! n)"
    unfolding data_below_def by blast
  let ?m = "n - (k + 1)"
  from n(1,2) have m: "?m < length (drop (k + 1) rows)" by simp
  have nth: "drop (k + 1) rows ! x = rows ! (k + 1 + x)" if "x \<le> ?m" for x
    using that n(1,2) by simp
  from n(1) have e: "k + 1 + ?m = n" by simp
  have "\<not> blank_row (drop (k + 1) rows ! m') \<and> \<not> named_row (drop (k + 1) rows ! m')" if "m' < ?m" for m'
  proof -
    from that n(1) have "k < k + 1 + m'" "k + 1 + m' < n" by simp_all
    with n(4) have "\<not> blank_row (rows ! (k + 1 + m')) \<and> \<not> named_row (rows ! (k + 1 + m'))" by blast
    with nth [of m'] that show ?thesis by simp
  qed
  with m n(3,5) nth [of ?m] e
  have "?m < length (drop (k + 1) rows) \<and> named_row (drop (k + 1) rows ! ?m)
        \<and> (\<forall>m'. m' < ?m \<longrightarrow> \<not> blank_row (drop (k + 1) rows ! m') \<and> \<not> named_row (drop (k + 1) rows ! m'))
        \<and> res = read_row pf ct cp (drop (k + 1) rows ! ?m)" by simp
  then show "scan_data pf ct cp (drop (k + 1) rows) = Some res"
    unfolding scan_data_iff by (rule exI)
qed

lemma below_iff:
  "below pf rows j = Some res \<longleftrightarrow>
     any_cell_contains ''site and source energy'' (rows ! j)
   \<and> (\<exists>k ct cp. header_for rows j k
         \<and> header_col ''total energy'' (rows ! k) ct
         \<and> header_col ''energy per total building area'' (rows ! k) cp
         \<and> data_below pf rows k ct cp res)"
  unfolding below_def header_for_iff [symmetric] header_col_iff [symmetric] data_below_iff [symmetric]
  by (auto split: option.splits)

lemma section_try_iff:
  "section_try pf rows i = Some res \<longleftrightarrow>
     any_cell_contains ''annual building utility performance summary'' (rows ! i)
   \<and> (\<exists>j. i < j \<and> j \<le> i + 39 \<and> j < length rows \<and> below pf rows j = Some res
          \<and> (\<forall>j'. i < j' \<and> j' < j \<longrightarrow> below pf rows j' = None))"
proof -
  let ?f = "below pf rows"
  have "(\<exists>x. i + 1 \<le> x \<and> x < min (i + 40) (length rows) \<and> ?f x = Some res
              \<and> (\<forall>y. i + 1 \<le> y \<and> y < x \<longrightarrow> ?f y = None))
        \<longleftrightarrow> (\<exists>j. i < j \<and> j \<le> i + 39 \<and> j < length rows \<and> ?f j = Some res
              \<and> (\<forall>j'. i < j' \<and> j' < j \<longrightarrow> ?f j' = None))"
  proof
    assume "\<exists>x. i + 1 \<le> x \<and> x < min (i + 40) (length rows) \<and> ?f x = Some res
              \<and> (\<forall>y. i + 1 \<le> y \<and> y < x \<longrightarrow> ?f y = None)"
    then obtain x where x: "i + 1 \<le> x" "x < min (i + 40) (length rows)" "?f x = Some res"
      "\<forall>y. i + 1 \<le> y \<and> y < x \<longrightarrow> ?f y = None" by blast
    have "?f j' = None" if "i < j'" "j' < x" for j'
      using x(4) that by simp
    with x(1,2,3) show "\<exists>j. i < j \<and> j \<le> i + 39 \<and> j < length rows \<and> ?f j = Some res
              \<and> (\<forall>j'. i < j' \<and> j' < j \<longrightarrow> ?f j' = None)"
      by (intro exI [of _ x]) simp
  next
    assume "\<exists>j. i < j \<and> j \<le> i + 39 \<and> j < length rows \<and> ?f j = Some res
              \<and> (\<forall>j'. i < j' \<and> j' < j \<longrightarrow> ?f j' = None)"
    then obtain x where x: "i < x" "x \<le> i + 39" "x < length rows" "?f x = Some res"
      "\<forall>j'. i < j' \<and> j' < x \<longrightarrow> ?f j' = None" by blast
    have "?f y = None" if "i + 1 \<le> y" "y < x" for y
      using x(5) that by simp
    with x(1,2,3,4) show "\<exists>x. i + 1 \<le> x \<and> x < min (i + 40) (length rows) \<and> ?f x = Some res
              \<and> (\<forall>y. i + 1 \<le> y \<and> y < x \<longrightarrow> ?f y = None)"
      by (intro exI [of _ x]) simp
  qed
  then show ?thesis
    unfolding section_try_def first_some_upt_Some [symmetric] by simp
qed

lemma yields_at_section:
  assumes "yields_at pf rows i j res"
  shows "any_cell_contains ''annual building utility performance summary'' (rows ! i)
         \<and> i < j \<and> j \<le> i + 39 \<and> j < length rows \<and> below pf rows j = Some res"
  using assms unfolding yields_at_def below_iff by blast

lemma section_yields_at:
  assumes "any_cell_contains ''annual building utility performance summary'' (rows ! i)"
    and "i < j" "j \<le> i + 39" "j < length rows" "below pf rows j = Some res"
  shows "yields_at pf rows i j res"
  using assms unfolding yields_at_def below_iff by blast

lemma search_none:
  assumes "\<forall>i j res. \<not> yields_at pf rows i j res"
  shows "first_some (map (section_try pf rows) [0 ..< length rows]) = None"
proof -
  have "section_try pf rows i = None" for i
  proof (cases "section_try pf rows i")
    case None
    then show ?thesis .
  next
    case (Some res)
    then obtain j where "any_cell_contains ''annual building utility performance summary'' (rows ! i)"
      "i < j" "j \<le> i + 39" "j < length rows" "below pf rows j = Some res"
      unfolding section_try_iff by blast
    then have "yields_at pf rows i j res" by (rule section_yields_at)
    with assms show ?thesis by blast
  qed
  then show ?thesis by (simp add: first_some_upt_None)
qed

lemma search_least:
  assumes y: "yields_at pf rows i j res"
    and least: "\<forall>i' j' res'. yields_at pf rows i' j' res' \<longrightarrow> i < i' \<or> (i = i' \<and> j \<le> j')"
  shows "first_some (map (section_try pf rows) [0 ..< length rows]) = Some res"
proof -
  note s = yields_at_section [OF y]
  have before_j: "below pf rows j' = None" if "i < j'" "j' < j" for j'
  proof (cases "below pf rows j'")
    case None
    then show ?thesis .
  next
    case (Some res')
    from that s have "j' \<le> i + 39" "j' < length rows" by simp_all
    with s that Some have "yields_at pf rows i j' res'" by (intro section_yields_at) simp_all
    with least have "i < i \<or> (i = i \<and> j \<le> j')" by blast
    with that show ?thesis by simp
  qed
  have here: "section_try pf rows i = Some res"
    unfolding section_try_iff using s before_j by blast
  have before_i: "section_try pf rows i' = None" if "i' < i" for i'
  proof (cases "section_try pf rows i'")
    case None
    then show ?thesis .
  next
    case (Some res')
    then obtain j' where "any_cell_contains ''annual building utility performance summary'' (rows ! i')"
      "i' < j'" "j' \<le> i' + 39" "j' < length rows" "below pf rows j' = Some res'"
      unfolding section_try_iff by blast
    then have "yields_at pf rows i' j' res'" by (rule section_yields_at)
    with least have "i < i' \<or> (i = i' \<and> j \<le> j')" by blast
    with that show ?thesis by simp
  qed
  from s have il: "i < length rows" by simp
  show ?thesis
    unfolding first_some_upt_Some using here before_i il by (intro exI [of _ i]) simp
qed

lemma search_sound:
  assumes "first_some (map (section_try pf rows) [0 ..< length rows]) = Some res"
  shows "\<exists>i j. yields_at pf rows i j res"
proof -
  from assms obtain i where "section_try pf rows i = Some res"
    unfolding first_some_upt_Some by blast
  then obtain j where "any_cell_contains ''annual building utility performance summary'' (rows ! i)"
    "i < j" "j \<le> i + 39" "j < length rows" "below pf rows j = Some res"
    unfolding section_try_iff by blast
  then have "yields_at pf rows i j res" by (rule section_yields_at)
  then show ?thesis by blast
qed

text \<open>
  C4, as amended: in the tab- and comma-delimited extraction strategies, after a row
  containing the section-title phrase, the subsection phrase is searched for within the
  following 39 rows; after the subsection row, the header row is searched for within the
  following 14 rows; and absence of any required marker at any stage yields (none, none)
  rather than an error. Precisely: the search never raises; it returns the pair of
  \<open>yields_at\<close> at the first title row \<open>i\<close> and, for it, the first subsection row \<open>j\<close> at
  which there is one; where there is none at all it returns (none, none); and a value it
  returns is the one of \<open>yields_at\<close> at some \<open>i\<close> and \<open>j\<close>.
\<close>

theorem tabular_search_windows:
  "(\<exists>res. fetch_from_tabular_text pf txt = Inr res)
   \<and> (\<forall>raw i j res. txt = Some raw \<and> yields_at pf (map (map strip) raw) i j res
          \<and> (\<forall>i' j' res'. yields_at pf (map (map strip) raw) i' j' res' \<longrightarrow> i < i' \<or> (i = i' \<and> j \<le> j'))
        \<longrightarrow> fetch_from_tabular_text pf txt = Inr res)
   \<and> ((\<forall>raw. txt = Some raw \<longrightarrow> (\<forall>i j res. \<not> yields_at pf (map (map strip) raw) i j res))
        \<longrightarrow> fetch_from_tabular_text pf txt = Inr (None, None))
   \<and> (\<forall>t p. fetch_from_tabular_text pf txt = Inr (t, p) \<and> (t \<noteq> None \<or> p \<noteq> None)
        \<longrightarrow> (\<exists>raw i j. txt = Some raw \<and> yields_at pf (map (map strip) raw) i j (t, p)))"
proof (intro conjI allI impI)
  show "\<exists>res. fetch_from_tabular_text pf txt = Inr res"
    by (rule fetch_from_tabular_text_total)
next
  fix raw i j res
  assume a: "txt = Some raw \<and> yields_at pf (map (map strip) raw) i j res
          \<and> (\<forall>i' j' res'. yields_at pf (map (map strip) raw) i' j' res' \<longrightarrow> i < i' \<or> (i = i' \<and> j \<le> j'))"
  then have y: "yields_at pf (map (map strip) raw) i j res"
    and least: "\<forall>i' j' res'. yields_at pf (map (map strip) raw) i' j' res' \<longrightarrow> i < i' \<or> (i = i' \<and> j \<le> j')"
    by blast+
  have "first_some (map (section_try pf (map (map strip) raw)) [0 ..< length (map (map strip) raw)])
             = Some res"
    using y least by (rule search_least)
  with a show "fetch_from_tabular_text pf txt = Inr res"
    by (simp add: fetch_from_tabular_text_first)
next
  assume a: "\<forall>raw. txt = Some raw \<longrightarrow> (\<forall>i j res. \<not> yields_at pf (map (map strip) raw) i j res)"
  show "fetch_from_tabular_text pf txt = Inr (None, None)"
  proof (cases "txt")
    case None
    then show ?thesis by (simp add: fetch_from_tabular_text_def)
  next
    case (Some raw)
    with a have "\<forall>i j res. \<not> yields_at pf (map (map strip) raw) i j res" by simp
    from search_none [OF this] Some show ?thesis
      by (simp add: fetch_from_tabular_text_first)
  qed
next
  fix t p
  assume a: "fetch_from_tabular_text pf txt = Inr (t, p) \<and> (t \<noteq> None \<or> p \<noteq> None)"
  then obtain raw where raw: "txt = Some raw"
    by (cases "txt") (auto simp: fetch_from_tabular_text_def)
  with a have "first_some (map (section_try pf (map (map strip) raw)) [0 ..< length (map (map strip) raw)])
               = Some (t, p)"
    by (auto simp: fetch_from_tabular_text_first split: option.splits)
  from search_sound [OF this] raw
  show "\<exists>raw i j. txt = Some raw \<and> yields_at pf (map (map strip) raw) i j (t, p)" by blast
qed

lemma report_0_0_yields:
  "yields_at whole_number (map (map strip) (report 0 0)) 0 1 (Some 125000, Some 42)"
proof -
  let ?R = "map (map strip) (report 0 0)"
  have l: "length ?R = 4" by code_simp
  have a: "any_cell_contains ''annual building utility performance summary'' (?R ! 0)" by code_simp
  have b: "any_cell_contains ''site and source energy'' (?R ! 1)" by code_simp
  have h: "is_header_row (?R ! 2)" by code_simp
  have c1: "1 < length (?R ! 2) \<and> contains ''total energy'' (lower (?R ! 2 ! 1))
            \<and> \<not> contains ''total energy'' (lower (?R ! 2 ! 0))" by code_simp
  have c2: "2 < length (?R ! 2) \<and> contains ''energy per total building area'' (lower (?R ! 2 ! 2))
            \<and> \<not> contains ''energy per total building area'' (lower (?R ! 2 ! 0))
            \<and> \<not> contains ''energy per total building area'' (lower (?R ! 2 ! 1))" by code_simp
  have d: "named_row (?R ! 3) \<and> read_row whole_number 1 2 (?R ! 3) = (Some 125000, Some 42)"
    by code_simp
  have hf: "header_for ?R 1 2"
    using l h by (auto simp: header_for_def)
  have hc1: "header_col ''total energy'' (?R ! 2) 1"
    using c1 by (simp add: header_col_def)
  have hc2: "header_col ''energy per total building area'' (?R ! 2) 2"
    using c2 by (auto simp: header_col_def less_2_cases_iff)
  have db: "data_below whole_number ?R 2 1 2 (Some 125000, Some 42)"
    unfolding data_below_def using l d by (intro exI [of _ 3]) auto
  from hf hc1 hc2 db
  have "\<exists>k ct cp. header_for ?R 1 k \<and> header_col ''total energy'' (?R ! k) ct
          \<and> header_col ''energy per total building area'' (?R ! k) cp
          \<and> data_below whole_number ?R k ct cp (Some 125000, Some 42)" by blast
  with l a b show ?thesis by (simp add: yields_at_def)
qed

lemma report_38_13: "fetch_from_tabular_text whole_number (Some (report 38 13)) = Inr (Some 125000, Some 42)"
  by code_simp

text \<open>
  The smallest report yields its values at title row 0 and subsection row 1; a report
  that is a title row alone yields nothing; and the windows are reached in full: with the
  subsection phrase in the 39th row after the title and the header in the 14th row after
  the subsection, the values are found.
\<close>

theorem tabular_search_windows_witness:
  "yields_at whole_number (map (map strip) (report 0 0)) 0 1 (Some 125000, Some 42)
   \<and> fetch_from_tabular_text whole_number (Some (report 0 0)) = Inr (Some 125000, Some 42)
   \<and> fetch_from_tabular_text whole_number (Some [title_row]) = Inr (None, None)
   \<and> fetch_from_tabular_text whole_number (Some (report 38 13)) = Inr (Some 125000, Some 42)
   \<and> any_cell_contains ''site and source energy'' (map strip (report 38 13 ! 39))
   \<and> is_header_row (map strip (report 38 13 ! 53))
   \<and> (\<exists>raw i j. Some (report 38 13) = Some raw
         \<and> yields_at whole_number (map (map strip) raw) i j (Some 125000, Some 42))"
proof -
  note y = report_0_0_yields
  have least: "\<forall>i' j' res'. yields_at whole_number (map (map strip) (report 0 0)) i' j' res'
                 \<longrightarrow> 0 < i' \<or> (0 = i' \<and> 1 \<le> j')"
    by (auto simp: yields_at_def)
  have none: "\<forall>raw. Some [title_row] = Some raw
                \<longrightarrow> (\<forall>i j res. \<not> yields_at whole_number (map (map strip) raw) i j res)"
    by (auto simp: yields_at_def)
  have v: "fetch_from_tabular_text whole_number (Some (report 38 13)) = Inr (Some 125000, Some 42)
           \<and> (Some (125000::int) \<noteq> None \<or> Some (42::int) \<noteq> None)"
    using report_38_13 by simp
  have h2: "Some (report 0 0) = Some (report 0 0)
            \<and> yields_at whole_number (map (map strip) (report 0 0)) 0 1 (Some 125000, Some 42)
            \<and> (\<forall>i' j' res'. yields_at whole_number (map (map strip) (report 0 0)) i' j' res'
                 \<longrightarrow> 0 < i' \<or> (0 = i' \<and> 1 \<le> j'))"
    using y least by simp
  note t2 = tabular_search_windows [of whole_number "Some (report 0 0)",
      THEN conjunct2, THEN conjunct1, THEN spec, THEN spec, THEN spec, THEN spec, THEN mp, OF h2]
  note t3 = tabular_search_windows [of whole_number "Some [title_row]",
      THEN conjunct2, THEN conjunct2, THEN conjunct1, THEN mp, OF none]
  note t4 = tabular_search_windows [of whole_number "Some (report 38 13)",
      THEN conjunct2, THEN conjunct2, THEN conjunct2, THEN spec, THEN spec, THEN mp, OF v]
  have b: "any_cell_contains ''site and source energy'' (map strip (report 38 13 ! 39))"
    by code_simp
  have c: "is_header_row (map strip (report 38 13 ! 53))"
    by code_simp
  from y t2 t3 report_38_13 b c t4 show ?thesis by (intro conjI)
qed

text \<open>
  The subsection phrase in the 40th row after the title is not found, although the header
  and the data row follow it directly; nor is the header in the 15th row after the
  subsection row.
\<close>

theorem fortieth_row_counterexample:
  "any_cell_contains ''annual building utility performance summary'' (map strip (report 39 0 ! 0))
   \<and> any_cell_contains ''site and source energy'' (map strip (report 39 0 ! 40))
   \<and> is_header_row (map strip (report 39 0 ! 41))
   \<and> map strip (report 39 0 ! 42) = [''Total Site Energy'', ''125,000'', ''42'']
   \<and> fetch_from_tabular_text whole_number (Some (report 39 0)) = Inr (None, None)
   \<and> any_cell_contains ''site and source energy'' (map strip (report 0 14 ! 1))
   \<and> is_header_row (map strip (report 0 14 ! 16))
   \<and> fetch_from_tabular_text whole_number (Some (report 0 14)) = Inr (None, None)"
  by code_simp





section \<open>The run state machine\<close>

lemma step_executing_ok:
  assumes "executing_ok a" and "step a e = Some a'"
  shows "executing_ok a'"
proof (cases e)
  case (Create x)
  with assms show ?thesis
    by (auto simp: executing_ok_def create_run_def split: if_splits)
next
  case (Initialise x cfg)
  with assms show ?thesis
    by (auto simp: executing_ok_def initialise_run_def Let_def split: option.splits if_splits)
next
  case (Start x)
  with assms show ?thesis
    by (auto simp: executing_ok_def start_run_def Let_def split: option.splits if_splits)
next
  case (Finish x outcome)
  with assms show ?thesis
    by (auto simp: executing_ok_def exec_run_def split: option.splits if_splits sum.splits)
next
  case (Remove x)
  with assms show ?thesis
    by (auto simp: executing_ok_def remove_run_def split: if_splits)
qed

lemma reachable_executing_ok: "reachable a \<Longrightarrow> executing_ok a"
proof (induction rule: reachable.induct)
  case initial
  show ?case by (simp add: executing_ok_def new_adapter_def)
next
  case (after a e a')
  from after.IH after.hyps(2) show ?case by (rule step_executing_ok)
qed

lemma exec_run_other:
  assumes "i \<noteq> x"
  shows "runs (snd (exec_run a x outcome)) i = runs a i"
proof (cases outcome)
  case (Inl e)
  with assms show ?thesis by (cases "is_Exception e"; cases "runs a x") (simp_all add: exec_run_def)
next
  case (Inr out)
  with assms show ?thesis by (cases "runs a x") (simp_all add: exec_run_def)
qed

lemma exec_run_same:
  assumes "runs a x = Some r" and "runs (snd (exec_run a x outcome)) x = Some r'"
  shows "state r' = state r \<or> state r' = SUCCEEDED \<or> state r' = ERROR"
proof (cases outcome)
  case (Inl e)
  with assms show ?thesis by (cases "is_Exception e") (auto simp add: exec_run_def)
next
  case (Inr out)
  with assms show ?thesis by (auto simp add: exec_run_def)
qed

lemma step_transition:
  assumes "executing_ok a" and "step a e = Some a'"
    and "runs a run_id = Some r" and "runs a' run_id = Some r'"
  shows "state r' = state r \<or> (state r, state r') \<in> transitions"
proof (cases e)
  case (Create x)
  with assms show ?thesis
    by (auto simp: create_run_def split: if_splits)
next
  case (Initialise x cfg)
  with assms show ?thesis
    by (cases "state r") (auto simp: initialise_run_def Let_def transitions_def split: option.splits if_splits)
next
  case (Start x)
  with assms show ?thesis
    by (cases "state r") (auto simp: start_run_def Let_def transitions_def split: option.splits if_splits)
next
  case (Finish x outcome)
  with assms(2) have x: "x \<in> set (executing a)"
    and a': "runs a' = runs (snd (exec_run a x outcome))"
    by (auto split: if_splits)
  show ?thesis
  proof (cases "run_id = x")
    case True
    with assms(1) x assms(3) have "state r = RUNNING" by (auto simp: executing_ok_def)
    moreover from exec_run_same [of a x r outcome r'] assms(3,4) a' True
    have "state r' = state r \<or> state r' = SUCCEEDED \<or> state r' = ERROR" by simp
    ultimately show ?thesis by (auto simp: transitions_def)
  next
    case False
    with exec_run_other [of run_id x a outcome] assms(3,4) a' show ?thesis by simp
  qed
next
  case (Remove x)
  with assms show ?thesis
    by (auto simp: remove_run_def split: if_splits)
qed

lemma step_config:
  assumes "step a e = Some a'" and "\<forall>i r. runs a i = Some r \<longrightarrow> config r = []"
    and "runs a' run_id = Some r'"
  shows "config r' = []"
proof (cases e)
  case (Create x)
  with assms show ?thesis
    by (auto simp: create_run_def split: if_splits)
next
  case (Initialise x cfg)
  with assms show ?thesis
    by (auto simp: initialise_run_def Let_def split: option.splits if_splits)
next
  case (Start x)
  with assms show ?thesis
    by (auto simp: start_run_def Let_def split: option.splits if_splits)
next
  case (Finish x outcome)
  with assms show ?thesis
    by (auto simp: exec_run_def split: option.splits if_splits sum.splits)
next
  case (Remove x)
  with assms show ?thesis
    by (auto simp: remove_run_def split: if_splits)
qed

lemma reachable_config: "reachable a \<Longrightarrow> runs a run_id = Some r \<Longrightarrow> config r = []"
proof (induction arbitrary: run_id r rule: reachable.induct)
  case initial
  then show ?case by (simp add: new_adapter_def)
next
  case (after a e a')
  have "\<forall>i r. runs a i = Some r \<longrightarrow> config r = []"
    using after.IH by blast
  with after.hyps(2) show ?case using after.prems by (rule step_config)
qed

lemma adapter_runs_same: "runs a run_id = Some r \<Longrightarrow> a\<lparr>runs := (runs a)(run_id \<mapsto> r)\<rparr> = a"
  by (simp add: fun_upd_idem)

text \<open>
  C9, as amended: in every reachable state of the adapter, a step changes the state of a
  run only from PENDING to INITIALISED or RUNNING, from INITIALISED to RUNNING, and from
  RUNNING to SUCCEEDED or ERROR, so the terminal states are absorbing. For a run in state
  RUNNING, SUCCEEDED or ERROR, start and initialise return the record unchanged and leave
  the adapter as it is: no execution is launched. For a run in state PENDING or
  INITIALISED, start sets RUNNING and launches one execution, and initialise sets
  INITIALISED.
\<close>

theorem run_state_transitions:
  "reachable a \<Longrightarrow> runs a run_id = Some r \<Longrightarrow>
     (\<forall>e a' r'. step a e = Some a' \<longrightarrow> runs a' run_id = Some r' \<longrightarrow>
        state r' = state r \<or> (state r, state r') \<in> transitions)
   \<and> (state r \<in> {RUNNING, SUCCEEDED, ERROR} \<longrightarrow>
        start_run a run_id = (Inr r, a) \<and> initialise_run a run_id cfg = (Inr r, a))
   \<and> (state r \<in> {PENDING, INITIALISED} \<longrightarrow>
        start_run a run_id =
          (Inr (r\<lparr>state := RUNNING, thread := Some run_id\<rparr>),
           a\<lparr>runs := (runs a)(run_id \<mapsto> r\<lparr>state := RUNNING, thread := Some run_id\<rparr>),
             executing := executing a @ [run_id]\<rparr>)
      \<and> initialise_run a run_id cfg =
          (Inr (r\<lparr>state := INITIALISED\<rparr>), a\<lparr>runs := (runs a)(run_id \<mapsto> r\<lparr>state := INITIALISED\<rparr>)\<rparr>))"
proof (intro conjI allI impI)
  fix e a' r'
  assume "reachable a" "runs a run_id = Some r" "step a e = Some a'" "runs a' run_id = Some r'"
  then show "state r' = state r \<or> (state r, state r') \<in> transitions"
    using step_transition [OF reachable_executing_ok] by blast
next
  assume "runs a run_id = Some r" "state r \<in> {RUNNING, SUCCEEDED, ERROR}"
  then show "start_run a run_id = (Inr r, a)"
    by (auto simp: start_run_def)
next
  assume "runs a run_id = Some r" "state r \<in> {RUNNING, SUCCEEDED, ERROR}"
  then show "initialise_run a run_id cfg = (Inr r, a)"
    by (auto simp: initialise_run_def adapter_runs_same)
next
  assume "runs a run_id = Some r" "state r \<in> {PENDING, INITIALISED}"
  then show "start_run a run_id =
          (Inr (r\<lparr>state := RUNNING, thread := Some run_id\<rparr>),
           a\<lparr>runs := (runs a)(run_id \<mapsto> r\<lparr>state := RUNNING, thread := Some run_id\<rparr>),
             executing := executing a @ [run_id]\<rparr>)"
    by (auto simp: start_run_def Let_def)
next
  assume "runs a run_id = Some r" "state r \<in> {PENDING, INITIALISED}"
  then show "initialise_run a run_id cfg =
          (Inr (r\<lparr>state := INITIALISED\<rparr>), a\<lparr>runs := (runs a)(run_id \<mapsto> r\<lparr>state := INITIALISED\<rparr>)\<rparr>)"
    by (auto simp: initialise_run_def Let_def)
qed

lemma reachable_one: "reachable one_run_adapter"
proof -
  have "step new_adapter (Create ''run-1'') = Some one_run_adapter"
    by (simp add: one_run_adapter_def new_adapter_def)
  then show ?thesis using reachable.initial reachable.after by blast
qed

lemma one_run: "runs one_run_adapter ''run-1'' = Some pending_run"
  by (simp add: one_run_adapter_def create_run_def pending_run_def)

lemma reachable_started: "reachable started_adapter"
proof -
  have "step one_run_adapter (Start ''run-1'') = Some started_adapter"
    by (simp add: started_adapter_def)
  then show ?thesis using reachable_one reachable.after by blast
qed

lemma started_run: "runs started_adapter ''run-1'' = Some (pending_run\<lparr>state := RUNNING, thread := Some ''run-1''\<rparr>)"
  by (simp add: started_adapter_def start_run_def one_run pending_run_def Let_def)

text \<open>
  A run just created is started from PENDING; once it is running, start and initialise
  change nothing.
\<close>

theorem run_state_transitions_witness:
  "reachable one_run_adapter \<and> runs one_run_adapter ''run-1'' = Some pending_run
   \<and> state pending_run \<in> {PENDING, INITIALISED}
   \<and> fst (start_run one_run_adapter ''run-1'') = Inr (pending_run\<lparr>state := RUNNING, thread := Some ''run-1''\<rparr>)
   \<and> (state pending_run, RUNNING) \<in> transitions
   \<and> reachable started_adapter
   \<and> start_run started_adapter ''run-1''
        = (Inr (pending_run\<lparr>state := RUNNING, thread := Some ''run-1''\<rparr>), started_adapter)
   \<and> initialise_run started_adapter ''run-1'' [(''year'', ''2030'')]
        = (Inr (pending_run\<lparr>state := RUNNING, thread := Some ''run-1''\<rparr>), started_adapter)"
proof -
  have p: "state pending_run \<in> {PENDING, INITIALISED}" by (simp add: pending_run_def)
  have q: "state (pending_run\<lparr>state := RUNNING, thread := Some ''run-1''\<rparr>) \<in> {RUNNING, SUCCEEDED, ERROR}"
    by simp
  note t1 = run_state_transitions [OF reachable_one one_run, of "[]"]
  note t2 = run_state_transitions [OF reachable_started started_run, of "[(''year'', ''2030'')]"]
  note t1' = t1 [THEN conjunct2, THEN conjunct2, rule_format, OF p, THEN conjunct1]
  have s1: "fst (start_run one_run_adapter ''run-1'') = Inr (pending_run\<lparr>state := RUNNING, thread := Some ''run-1''\<rparr>)"
    by (simp only: t1' fst_conv)
  have s2: "start_run started_adapter ''run-1''
        = (Inr (pending_run\<lparr>state := RUNNING, thread := Some ''run-1''\<rparr>), started_adapter)"
    using t2 q by blast
  have s3: "initialise_run started_adapter ''run-1'' [(''year'', ''2030'')]
        = (Inr (pending_run\<lparr>state := RUNNING, thread := Some ''run-1''\<rparr>), started_adapter)"
    using t2 q by blast
  have s4: "(state pending_run, RUNNING) \<in> transitions"
    by (simp add: pending_run_def transitions_def)
  show ?thesis using reachable_one one_run p s1 s4 reachable_started s2 s3 by blast
qed

text \<open>
  A run that was never initialised starts: PENDING to RUNNING is not among the listed
  transitions.
\<close>

theorem pending_run_starts_counterexample:
  "runs one_run_adapter ''run-1'' = Some pending_run \<and> state pending_run = PENDING
   \<and> map_option state (runs (snd (start_run one_run_adapter ''run-1'')) ''run-1'') = Some RUNNING
   \<and> (PENDING, RUNNING) \<notin> listed_transitions"
  by (simp add: one_run start_run_def Let_def pending_run_def listed_transitions_def)

text \<open>
  C10: in every reachable state, the configuration of every stored run is the empty
  mapping it was created with, and initialise_run, whatever configuration it is passed,
  stores and returns a record whose configuration is still empty.
\<close>

theorem initialise_ignores_config:
  "reachable a \<Longrightarrow> runs a run_id = Some r \<Longrightarrow>
     config r = []
   \<and> (\<exists>r'. initialise_run a run_id cfg = (Inr r', a\<lparr>runs := (runs a)(run_id \<mapsto> r')\<rparr>)
          \<and> config r' = [])"
proof -
  assume a: "reachable a" and r: "runs a run_id = Some r"
  have c: "config r = []" using reachable_config [OF a r] .
  show ?thesis using r c by (auto simp: initialise_run_def Let_def)
qed

text \<open>
  A configuration passed for a run just created is not recorded.
\<close>

theorem initialise_ignores_config_witness:
  "reachable one_run_adapter \<and> runs one_run_adapter ''run-1'' = Some pending_run
   \<and> map_sum id config (fst (initialise_run one_run_adapter ''run-1'' [(''year'', ''2030'')])) = Inr []
   \<and> map_option config (runs (snd (initialise_run one_run_adapter ''run-1'' [(''year'', ''2030'')])) ''run-1'') = Some []"
proof -
  note t = initialise_ignores_config [OF reachable_one one_run, of "[(''year'', ''2030'')]"]
  then obtain r' where
    i: "initialise_run one_run_adapter ''run-1'' [(''year'', ''2030'')]
          = (Inr r', one_run_adapter\<lparr>runs := (runs one_run_adapter)(''run-1'' \<mapsto> r')\<rparr>)"
    and c: "config r' = []" by blast
  show ?thesis using reachable_one one_run i c by simp
qed

end
